theory Spec2Isabelle
  imports Complex_Main "HOL-Library.Sublist" "HOL-Library.AList" "HOL-Library.Multiset"
begin

section \<open>Strings\<close>

text \<open>
  Python strings are modelled as \<open>string\<close>. \<open>str.lower()\<close> is modelled on the ASCII
  letters, which is what every name and pattern of the catalog uses; other characters
  are left as they are.
\<close>

definition lower_char :: "char \<Rightarrow> char" where
  "lower_char c =
     (case map_of (zip ''ABCDEFGHIJKLMNOPQRSTUVWXYZ'' ''abcdefghijklmnopqrstuvwxyz'') c of
        Some d \<Rightarrow> d
      | None \<Rightarrow> c)"

definition lower :: "string \<Rightarrow> string" where
  "lower s = map lower_char s"

text \<open>\<open>contains p s\<close> is Python's \<open>p in s\<close> on strings: \<open>p\<close> occurs in \<open>s\<close> as a
  contiguous run of characters.\<close>

fun contains :: "string \<Rightarrow> string \<Rightarrow> bool" where
  "contains p [] = (p = [])"
| "contains p (c # cs) = (prefix p (c # cs) \<or> contains p cs)"

section \<open>The layout catalog (\<open>PREDEFINED_LAYOUTS\<close>)\<close>

record layout_config =
  cfg_name :: string
  cfg_keywords :: "string list"
  has_image :: bool
  content_boxes :: nat
  prefer_simple :: bool

definition PREDEFINED_LAYOUTS :: "string \<Rightarrow> layout_config option" where
  "PREDEFINED_LAYOUTS k =
     (if k = ''title_content'' then
        Some \<lparr>cfg_name = ''Title and Content'',
              cfg_keywords = [''title'', ''content'', ''body'', ''text'', ''only''],
              has_image = False, content_boxes = 1, prefer_simple = False\<rparr>
      else if k = ''title_two_content'' then
        Some \<lparr>cfg_name = ''Title and Two Content'',
              cfg_keywords = [''two'', ''comparison'', ''columns'', ''divided''],
              has_image = False, content_boxes = 2, prefer_simple = False\<rparr>
      else if k = ''title_image_content'' then
        Some \<lparr>cfg_name = ''Title Image and Content'',
              cfg_keywords = [''picture'', ''image'', ''content'', ''photo'', ''text''],
              has_image = True, content_boxes = 1, prefer_simple = False\<rparr>
      else if k = ''title_image'' then
        Some \<lparr>cfg_name = ''Title and Image'',
              cfg_keywords = [''picture'', ''image'', ''photo'', ''blank''],
              has_image = True, content_boxes = 0, prefer_simple = True\<rparr>
      else None)"

section \<open>Layouts and placeholders\<close>

text \<open>
  The placeholder kinds the code tells apart; every other member of \<open>PP_PLACEHOLDER\<close> is
  \<open>OTHER\<close>. Reading \<open>shape.placeholder_format\<close> may raise; the code catches that and goes
  on to the next placeholder, so a placeholder carries \<open>None\<close> when the read raises.
\<close>

datatype ph_type = TITLE | BODY | OBJECT | PICTURE | OTHER

record placeholder =
  ph_type :: "ph_type option"
  ph_idx :: nat
  ph_has_text_frame :: bool
  ph_left :: int
  ph_top :: int
  ph_width :: int
  ph_height :: int
  ph_text :: string

record layout =
  name :: string
  placeholders :: "placeholder list"

section \<open>\<open>find_layout_by_type\<close>\<close>

definition exclude_patterns :: "string list" where
  "exclude_patterns =
     [''mango'', ''cover'', ''branded'', ''anvil'', ''thank'', ''section'', ''divider'']"

text \<open>\<open>any(pattern in layout_name_lower for pattern in exclude_patterns)\<close>\<close>

definition excluded :: "layout \<Rightarrow> bool" where
  "excluded l = list_ex (\<lambda>pattern. contains pattern (lower (name l))) exclude_patterns"

subsection \<open>First try: exact name\<close>

fun exact_match :: "layout_config \<Rightarrow> layout list \<Rightarrow> layout option" where
  "exact_match cfg [] = None"
| "exact_match cfg (l # ls) =
     (if excluded l then exact_match cfg ls
      else if lower (cfg_name cfg) = lower (name l) then Some l
      else exact_match cfg ls)"

subsection \<open>Second try: keywords\<close>

fun keyword_score :: "string list \<Rightarrow> string \<Rightarrow> int" where
  "keyword_score [] layout_name_lower = 0"
| "keyword_score (keyword # kws) layout_name_lower =
     (if contains keyword layout_name_lower then 1 else 0) + keyword_score kws layout_name_lower"

text \<open>The loop over the layouts, with the loop variables \<open>best_match\<close> and \<open>best_score\<close>.\<close>

fun keyword_loop ::
  "string list \<Rightarrow> layout list \<Rightarrow> layout option \<Rightarrow> int \<Rightarrow> layout option \<times> int" where
  "keyword_loop kws [] best_match best_score = (best_match, best_score)"
| "keyword_loop kws (l # ls) best_match best_score =
     (if excluded l then keyword_loop kws ls best_match best_score
      else let score = keyword_score kws (lower (name l)) in
        if score > best_score then keyword_loop kws ls (Some l) score
        else keyword_loop kws ls best_match best_score)"

definition keyword_match :: "layout_config \<Rightarrow> layout list \<Rightarrow> layout option" where
  "keyword_match cfg ls =
     (case keyword_loop (cfg_keywords cfg) ls None 0 of
        (Some best_match, best_score) \<Rightarrow> if best_score > 0 then Some best_match else None
      | (None, best_score) \<Rightarrow> None)"

subsection \<open>Third try: structure\<close>

record layout_stats =
  has_title :: bool
  body_count :: nat
  has_picture :: bool
  placeholder_count :: nat

text \<open>The inner loop over \<open>layout.placeholders\<close>: the count goes up before the type is
  read, so a placeholder whose type cannot be read is counted all the same.\<close>

fun scan_placeholders :: "placeholder list \<Rightarrow> layout_stats \<Rightarrow> layout_stats" where
  "scan_placeholders [] s = s"
| "scan_placeholders (shape # shapes) s =
     (let s1 = s\<lparr>placeholder_count := placeholder_count s + 1\<rparr> in
      case ph_type shape of
        None \<Rightarrow> scan_placeholders shapes s1
      | Some TITLE \<Rightarrow> scan_placeholders shapes (s1\<lparr>has_title := True\<rparr>)
      | Some BODY \<Rightarrow> scan_placeholders shapes (s1\<lparr>body_count := body_count s1 + 1\<rparr>)
      | Some OBJECT \<Rightarrow> scan_placeholders shapes (s1\<lparr>body_count := body_count s1 + 1\<rparr>)
      | Some PICTURE \<Rightarrow> scan_placeholders shapes (s1\<lparr>has_picture := True\<rparr>)
      | Some OTHER \<Rightarrow> scan_placeholders shapes s1)"

definition layout_structure :: "layout \<Rightarrow> layout_stats" where
  "layout_structure l =
     scan_placeholders (placeholders l)
       \<lparr>has_title = False, body_count = 0, has_picture = False, placeholder_count = 0\<rparr>"

definition structure_score :: "string \<Rightarrow> layout \<Rightarrow> int" where
  "structure_score layout_type l =
     (let s = layout_structure l in
      if layout_type = ''title_content'' then
        (if has_title s \<and> body_count s \<ge> 1 \<and> \<not> has_picture s
         then 100 - int (placeholder_count s) else 0)
      else if layout_type = ''title_two_content'' then
        (if has_title s \<and> body_count s \<ge> 2
         then 100 - int (placeholder_count s) else 0)
      else if layout_type = ''title_image_content'' then
        (if has_title s \<and> body_count s \<ge> 1 \<and> has_picture s
         then 100 - int (placeholder_count s) else 0)
      else if layout_type = ''title_image'' then
        (if has_title s \<and> has_picture s \<and> body_count s = 0
         then 200 - int (placeholder_count s)
         else if has_title s \<and> has_picture s
         then 50 - int (placeholder_count s) else 0)
      else 0)"

fun structure_loop ::
  "string \<Rightarrow> layout list \<Rightarrow> layout option \<Rightarrow> int \<Rightarrow> layout option \<times> int" where
  "structure_loop layout_type [] best_match best_score = (best_match, best_score)"
| "structure_loop layout_type (l # ls) best_match best_score =
     (if excluded l then structure_loop layout_type ls best_match best_score
      else let score = structure_score layout_type l in
        if score > best_score then structure_loop layout_type ls (Some l) score
        else structure_loop layout_type ls best_match best_score)"

definition structure_match :: "string \<Rightarrow> layout list \<Rightarrow> layout option" where
  "structure_match layout_type ls = fst (structure_loop layout_type ls None 0)"

subsection \<open>Fallback\<close>

text \<open>The fallback's own scan of the placeholders; it has no test of the layout's name.\<close>

fun scan_fallback :: "placeholder list \<Rightarrow> bool \<times> bool \<Rightarrow> bool \<times> bool" where
  "scan_fallback [] tb = tb"
| "scan_fallback (shape # shapes) (fb_has_title, fb_has_body) =
     (case ph_type shape of
        Some TITLE \<Rightarrow> scan_fallback shapes (True, fb_has_body)
      | Some BODY \<Rightarrow> scan_fallback shapes (fb_has_title, True)
      | Some OBJECT \<Rightarrow> scan_fallback shapes (fb_has_title, True)
      | _ \<Rightarrow> scan_fallback shapes (fb_has_title, fb_has_body))"

fun fallback_loop :: "layout list \<Rightarrow> layout option" where
  "fallback_loop [] = None"
| "fallback_loop (l # ls) =
     (case scan_fallback (placeholders l) (False, False) of
        (fb_has_title, fb_has_body) \<Rightarrow> if fb_has_title \<and> fb_has_body then Some l else fallback_loop ls)"

definition ultimate_fallback :: "layout list \<Rightarrow> layout option" where
  "ultimate_fallback ls =
     (if length ls > 1 then Some (ls ! 1)
      else if length ls > 0 then Some (ls ! 0) else None)"

definition fallback_match :: "layout list \<Rightarrow> layout option" where
  "fallback_match ls =
     (case fallback_loop ls of Some l \<Rightarrow> Some l | None \<Rightarrow> ultimate_fallback ls)"

subsection \<open>The four tries in order\<close>

definition find_layout_by_type :: "layout list \<Rightarrow> string \<Rightarrow> layout option" where
  "find_layout_by_type slide_layouts layout_type =
     (case PREDEFINED_LAYOUTS layout_type of
        None \<Rightarrow> None
      | Some layout_config \<Rightarrow>
          (case exact_match layout_config slide_layouts of
             Some l \<Rightarrow> Some l
           | None \<Rightarrow>
               (case keyword_match layout_config slide_layouts of
                  Some l \<Rightarrow> Some l
                | None \<Rightarrow>
                    (case structure_match layout_type slide_layouts of
                       Some l \<Rightarrow> Some l
                     | None \<Rightarrow> fallback_match slide_layouts))))"

subsection \<open>The structural composition each type asks for\<close>

text \<open>
  The specification's reading of the third try: the composition a layout must have to
  qualify for a type (for \<open>title_image\<close>, the composition with no body placeholder), and
  the total number of its placeholders. These two follow the specification's words; the
  scores above follow the code.
\<close>

definition required_composition :: "string \<Rightarrow> layout \<Rightarrow> bool" where
  "required_composition layout_type l =
     (let s = layout_structure l in
      if layout_type = ''title_content'' then
        has_title s \<and> body_count s \<ge> 1 \<and> \<not> has_picture s
      else if layout_type = ''title_two_content'' then has_title s \<and> body_count s \<ge> 2
      else if layout_type = ''title_image_content'' then
        has_title s \<and> body_count s \<ge> 1 \<and> has_picture s
      else if layout_type = ''title_image'' then
        has_title s \<and> has_picture s \<and> body_count s = 0
      else False)"

definition total_placeholders :: "layout \<Rightarrow> nat" where
  "total_placeholders l = placeholder_count (layout_structure l)"

subsection \<open>Example layouts\<close>

definition example_ph :: "ph_type \<Rightarrow> placeholder" where
  "example_ph t =
     \<lparr>ph_type = Some t, ph_idx = 0, ph_has_text_frame = True, ph_left = 0, ph_top = 0,
      ph_width = 0, ph_height = 0, ph_text = []\<rparr>"

definition layout_of :: "string \<Rightarrow> ph_type list \<Rightarrow> layout" where
  "layout_of n ts = \<lparr>name = n, placeholders = map example_ph ts\<rparr>"

section \<open>The batch text replacement (\<open>ppt_processor.py\<close>)\<close>

text \<open>
  A paragraph is the list of the texts of its runs. The regular-expression engine is not
  part of the repository: \<open>pattern.sub(new, text)\<close> for the pattern
  \<open>re.compile(re.escape(old))\<close> is the parameter \<open>sub old new text\<close> of the functions
  below. \<open>replace_all\<close> is that substitution for a replacement text without backslashes:
  every occurrence of \<open>old\<close>, leftmost first and not overlapping, is replaced by \<open>new\<close>;
  the empty pattern matches before every character and at the end.
\<close>

type_synonym re_sub = "string \<Rightarrow> string \<Rightarrow> string \<Rightarrow> string"


text \<open>\<open>for pattern, new in patterns: new_text = pattern.sub(new, new_text)\<close>, in the
  order of the dictionary's items.\<close>

fun apply_patterns :: "re_sub \<Rightarrow> (string \<times> string) list \<Rightarrow> string \<Rightarrow> string" where
  "apply_patterns sub [] new_text = new_text"
| "apply_patterns sub ((old, new) # patterns) new_text =
     apply_patterns sub patterns (sub old new new_text)"

text \<open>\<open>process_paragraph\<close> takes the runs and the flag \<open>updated\<close> of the enclosing
  function, and returns both.\<close>

definition process_paragraph ::
  "re_sub \<Rightarrow> (string \<times> string) list \<Rightarrow> string list \<Rightarrow> bool \<Rightarrow> string list \<times> bool" where
  "process_paragraph sub replacements runs updated =
     (if runs = [] then (runs, updated)
      else let original_text = concat runs in
        if \<not> list_ex (\<lambda>k. contains k original_text) (map fst replacements)
        then (runs, updated)
        else let new_text = apply_patterns sub replacements original_text in
          if new_text \<noteq> original_text
          then (new_text # map (\<lambda>run. []) (tl runs), True)
          else (runs, updated))"

fun process_paragraphs ::
  "re_sub \<Rightarrow> (string \<times> string) list \<Rightarrow> string list list \<Rightarrow> bool
   \<Rightarrow> string list list \<times> bool" where
  "process_paragraphs sub replacements [] updated = ([], updated)"
| "process_paragraphs sub replacements (paragraph # ps) updated =
     (case process_paragraph sub replacements paragraph updated of
        (paragraph', updated1) \<Rightarrow>
          (case process_paragraphs sub replacements ps updated1 of
             (ps', updated2) \<Rightarrow> (paragraph' # ps', updated2)))"

text \<open>A shape has a text frame or none, and a table or none; a table is rows of cells,
  and a cell has a text frame or none. A text frame is its list of paragraphs.\<close>

record text_shape =
  text_frame :: "string list list option"
  table :: "string list list option list list option"

definition process_frame ::
  "re_sub \<Rightarrow> (string \<times> string) list \<Rightarrow> string list list option \<Rightarrow> bool
   \<Rightarrow> string list list option \<times> bool" where
  "process_frame sub replacements tf updated =
     (case tf of
        None \<Rightarrow> (None, updated)
      | Some paragraphs \<Rightarrow>
          (case process_paragraphs sub replacements paragraphs updated of
             (paragraphs', updated1) \<Rightarrow> (Some paragraphs', updated1)))"

fun process_cells ::
  "re_sub \<Rightarrow> (string \<times> string) list \<Rightarrow> string list list option list \<Rightarrow> bool
   \<Rightarrow> string list list option list \<times> bool" where
  "process_cells sub replacements [] updated = ([], updated)"
| "process_cells sub replacements (cell # cells) updated =
     (case process_frame sub replacements cell updated of
        (cell', updated1) \<Rightarrow>
          (case process_cells sub replacements cells updated1 of
             (cells', updated2) \<Rightarrow> (cell' # cells', updated2)))"

fun process_rows ::
  "re_sub \<Rightarrow> (string \<times> string) list \<Rightarrow> string list list option list list \<Rightarrow> bool
   \<Rightarrow> string list list option list list \<times> bool" where
  "process_rows sub replacements [] updated = ([], updated)"
| "process_rows sub replacements (row # rows) updated =
     (case process_cells sub replacements row updated of
        (row', updated1) \<Rightarrow>
          (case process_rows sub replacements rows updated1 of
             (rows', updated2) \<Rightarrow> (row' # rows', updated2)))"

definition process_shape ::
  "re_sub \<Rightarrow> (string \<times> string) list \<Rightarrow> text_shape \<Rightarrow> bool \<Rightarrow> text_shape \<times> bool" where
  "process_shape sub replacements shape updated =
     (case process_frame sub replacements (text_frame shape) updated of
        (tf', updated1) \<Rightarrow>
          (case table shape of
             None \<Rightarrow> (shape\<lparr>text_frame := tf'\<rparr>, updated1)
           | Some rows \<Rightarrow>
               (case process_rows sub replacements rows updated1 of
                  (rows', updated2) \<Rightarrow>
                    (shape\<lparr>text_frame := tf', table := Some rows'\<rparr>, updated2))))"

fun process_shapes ::
  "re_sub \<Rightarrow> (string \<times> string) list \<Rightarrow> text_shape list \<Rightarrow> bool
   \<Rightarrow> text_shape list \<times> bool" where
  "process_shapes sub replacements [] updated = ([], updated)"
| "process_shapes sub replacements (shape # shapes) updated =
     (case process_shape sub replacements shape updated of
        (shape', updated1) \<Rightarrow>
          (case process_shapes sub replacements shapes updated1 of
             (shapes', updated2) \<Rightarrow> (shape' # shapes', updated2)))"

fun process_slides ::
  "re_sub \<Rightarrow> (string \<times> string) list \<Rightarrow> text_shape list list \<Rightarrow> bool
   \<Rightarrow> text_shape list list \<times> bool" where
  "process_slides sub replacements [] updated = ([], updated)"
| "process_slides sub replacements (slide # slides) updated =
     (case process_shapes sub replacements slide updated of
        (slide', updated1) \<Rightarrow>
          (case process_slides sub replacements slides updated1 of
             (slides', updated2) \<Rightarrow> (slide' # slides', updated2)))"

text \<open>\<open>update_ppt_text\<close>: the file is saved only when \<open>updated\<close> is set; the result is the
  file's slides afterwards and the flag.\<close>

definition update_ppt_text ::
  "re_sub \<Rightarrow> (string \<times> string) list \<Rightarrow> text_shape list list \<Rightarrow> text_shape list list \<times> bool" where
  "update_ppt_text sub replacements prs =
     (case process_slides sub replacements prs False of
        (prs', updated) \<Rightarrow> (if updated then prs' else prs, updated))"

section \<open>The replacement configuration (\<open>config_loader.py\<close>)\<close>

text \<open>
  The text of the file is a \<open>string\<close>, its characters read as code points below 256.
  \<open>is_space\<close> is Python's \<open>str.isspace\<close> on that range, which is also what \<open>\s\<close> matches
  and what \<open>strip\<close> removes.
\<close>

definition is_space :: "char \<Rightarrow> bool" where
  "is_space c = (c \<in> set [CHR 0x09, CHR 0x0A, CHR 0x0B, CHR 0x0C, CHR 0x0D, CHR 0x1C, CHR 0x1D,
     CHR 0x1E, CHR 0x1F, CHR 0x20, CHR 0x85, CHR 0xA0])"

definition lstrip :: "string \<Rightarrow> string" where
  "lstrip s = dropWhile is_space s"

definition rstrip :: "string \<Rightarrow> string" where
  "rstrip s = rev (dropWhile is_space (rev s))"

definition strip :: "string \<Rightarrow> string" where
  "strip s = rstrip (lstrip s)"

text \<open>\<open>text.replace('\r\n', '\n').replace('\r', '\n')\<close>\<close>

fun normalize_newlines :: "string \<Rightarrow> string" where
  "normalize_newlines [] = []"
| "normalize_newlines (c # cs) =
     (if c = CHR 0x0D then
        (case cs of
           d # ds \<Rightarrow> if d = CHR 0x0A then CHR 0x0A # normalize_newlines ds
                     else CHR 0x0A # normalize_newlines cs
         | [] \<Rightarrow> [CHR 0x0A])
      else c # normalize_newlines cs)"

text \<open>\<open>text.split('\n')\<close>: one more piece than there are line feeds.\<close>

fun split_lines :: "string \<Rightarrow> string list" where
  "split_lines [] = [[]]"
| "split_lines (c # cs) =
     (case split_lines cs of
        line # lines \<Rightarrow> if c = CHR 0x0A then [] # line # lines else (c # line) # lines
      | [] \<Rightarrow> [[c]])"

text \<open>What the body of the loop makes of one raw line: nothing (a comment or a blank
  line), a malformed line, or a key and a value.\<close>

datatype parsed_line = Skip | Malformed | Entry string string

definition parse_line :: "string \<Rightarrow> parsed_line" where
  "parse_line raw =
     (if (case dropWhile is_space raw of c # cs \<Rightarrow> c = CHR ''#'' | [] \<Rightarrow> False) then Skip
      else let line = strip raw in
        if line = [] then Skip
        else if CHR ''='' \<notin> set line then Malformed
        else let old = takeWhile (\<lambda>c. c \<noteq> CHR ''='') line;
                 new = tl (dropWhile (\<lambda>c. c \<noteq> CHR ''='') line);
                 key = strip old;
                 val = strip new
             in if key = [] then Malformed else Entry key val)"

text \<open>The loop's three variables \<open>replacements\<close>, \<open>malformed\<close> and \<open>duplicates\<close>. The
  dictionary is an association list in insertion order; storing under a key already
  present keeps its place (\<open>AList.update\<close>). A duplicate warning is printed for each element of
  \<open>duplicates\<close>, when it is appended.\<close>

text \<open>\<open>key in replacements and replacements[key] != val\<close>\<close>

definition value_differs :: "(string \<times> string) list \<Rightarrow> string \<Rightarrow> string \<Rightarrow> bool" where
  "value_differs m key val = (case map_of m key of Some v \<Rightarrow> v \<noteq> val | None \<Rightarrow> False)"

record loader_state =
  st_replacements :: "(string \<times> string) list"
  st_malformed :: "(nat \<times> string) list"
  st_duplicates :: "(nat \<times> string) list"

fun load_lines :: "nat \<Rightarrow> string list \<Rightarrow> loader_state \<Rightarrow> loader_state" where
  "load_lines idx [] st = st"
| "load_lines idx (raw # lines) st =
     (case parse_line raw of
        Skip \<Rightarrow> load_lines (idx + 1) lines st
      | Malformed \<Rightarrow> load_lines (idx + 1) lines (st\<lparr>st_malformed := st_malformed st @ [(idx, raw)]\<rparr>)
      | Entry key val \<Rightarrow>
          (let st1 =
             (if value_differs (st_replacements st) key val
              then st\<lparr>st_duplicates := st_duplicates st @ [(idx, key)]\<rparr> else st)
           in load_lines (idx + 1) lines
                (st1\<lparr>st_replacements := AList.update key val (st_replacements st1)\<rparr>)))"

text \<open>The pairs \<open>(a, b)\<close> of the dictionary with \<open>b\<close> a key that maps back to \<open>a\<close>.\<close>

definition inverses :: "(string \<times> string) list \<Rightarrow> (string \<times> string) list" where
  "inverses m = filter (\<lambda>(a, b). map_of m b = Some a) m"

datatype load_error = FileNotFoundError | ValueError "(string \<times> string) list"

text \<open>\<open>load_replacements\<close>, on the content of the file (\<open>None\<close> when the path does not
  exist): the duplicate warnings printed, and the error raised or the dictionary
  returned.\<close>

definition load_replacements ::
  "string option \<Rightarrow> (nat \<times> string) list \<times> (load_error + (string \<times> string) list)" where
  "load_replacements file =
     (case file of
        None \<Rightarrow> ([], Inl FileNotFoundError)
      | Some text \<Rightarrow>
          (let lines = split_lines (normalize_newlines text);
               st = load_lines 1 lines \<lparr>st_replacements = [], st_malformed = [], st_duplicates = []\<rparr>
           in (st_duplicates st,
               if inverses (st_replacements st) \<noteq> []
               then Inl (ValueError (inverses (st_replacements st)))
               else Inr (st_replacements st))))"

text \<open>The entries of the file with their line numbers, in file order.\<close>

fun numbered_entries :: "nat \<Rightarrow> string list \<Rightarrow> (nat \<times> string \<times> string) list" where
  "numbered_entries idx [] = []"
| "numbered_entries idx (raw # lines) =
     (case parse_line raw of
        Entry key val \<Rightarrow> (idx, key, val) # numbered_entries (idx + 1) lines
      | _ \<Rightarrow> numbered_entries (idx + 1) lines)"

definition file_entries :: "string \<Rightarrow> (nat \<times> string \<times> string) list" where
  "file_entries text = numbered_entries 1 (split_lines (normalize_newlines text))"

text \<open>At an entry with key \<open>k\<close> and value \<open>v\<close> that follows the entries \<open>pre\<close>: the
  latest of them with key \<open>k\<close> has another value.\<close>

definition earlier_value_differs ::
  "(nat \<times> string \<times> string) list \<times> (nat \<times> string \<times> string) \<Rightarrow> bool" where
  "earlier_value_differs = (\<lambda>(pre, (i, k, v)). value_differs (rev (map snd pre)) k v)"

section \<open>Adding a slide (\<open>add_slide\<close>)\<close>

subsection \<open>Lengths\<close>

text \<open>
  \<open>Inches(x)\<close> is \<open>int(x * 914400)\<close>. For each length the code uses (0.1, 0.5, 1.5, 1.8, 3,
  4.2, 5, 5.2, 6.5 and 9 inches) the floating-point product is the whole number that the
  exact product is, so \<open>Inches\<close> is modelled on the reals.
\<close>

definition Inches :: "real \<Rightarrow> int" where
  "Inches x = \<lfloor>x * 914400\<rfloor>"

text \<open>\<open>int(x)\<close> on a float truncates towards zero.\<close>

definition py_int :: "real \<Rightarrow> int" where
  "py_int x = (if x \<ge> 0 then \<lfloor>x\<rfloor> else \<lceil>x\<rceil>)"

subsection \<open>Slides and the presentation\<close>

text \<open>
  A shape of a slide is a placeholder, a text box (left, top, width, height, text) or a
  picture (left, top, width, height). The slides of a presentation are the list
  \<open>sldIdLst\<close> of slide ids, in presentation order, and the slide each id refers to.
\<close>

datatype shape =
    Placeholder placeholder
  | TextBox int int int int string
  | Picture int int int int

record slide =
  shapes :: "shape list"
  background :: "(nat \<times> nat \<times> nat) option"

record presentation =
  slide_layouts :: "layout list"
  sldIdLst :: "nat list"
  slide_parts :: "nat \<Rightarrow> slide option"

text \<open>
  What the code gets from outside the repository:
  \<^item> \<open>clone_placeholders\<close>: the placeholders python-pptx gives a new slide made from a
    layout;
  \<^item> \<open>sldIdLst_available\<close>: whether the private attribute \<open>prs.slides._sldIdLst\<close> can be read
    (when not, reading it raises \<open>AttributeError\<close>, which the code catches);
  \<^item> \<open>fl\<close>: the rounding of a floating-point operation, applied to its exact result.
  The operations of python-pptx and lxml on a presentation in memory (adding a slide, a
  text box, a picture, clearing and appending to the id list) are taken to succeed.
\<close>

record env =
  clone_placeholders :: "layout \<Rightarrow> placeholder list"
  sldIdLst_available :: bool
  fl :: "real \<Rightarrow> real"

text \<open>An uploaded image python-pptx can read: \<open>scaled_width\<close> is the width it computes,
  from the image's own size, for a picture of height \<open>Inches(5)\<close>.\<close>

record image =
  scaled_width :: int

record request =
  req_layout :: string
  req_title :: string
  req_text :: string
  req_text2 :: string
  req_image :: "image option"
  req_position :: "int option"

datatype add_slide_error =
    ValidLayoutTypeRequired
  | ContentTextRequired
  | SecondContentRequired
  | PositionNotNumber
  | PositionNegative
  | NoSlideLayouts
  | NoSuitableLayout

text \<open>The id python-pptx gives the new slide: one more than the largest in use, and at
  least 256.\<close>

definition next_slide_id :: "nat list \<Rightarrow> nat" where
  "next_slide_id ids = Suc (fold max ids 255)"

subsection \<open>Moving the slide to its position\<close>

text \<open>
  \<open>xml_slides\<close> is the id list after the new slide was appended. The local list \<open>slides\<close>
  is a copy; the last id is popped and inserted at \<open>insert_pos\<close>; then the id list is
  cleared and every id of \<open>slides\<close> is appended to it in turn.
\<close>

definition reposition :: "bool \<Rightarrow> nat \<Rightarrow> nat \<Rightarrow> nat list \<Rightarrow> nat list" where
  "reposition api_available position total_slides xml_slides =
     (if position < total_slides then
        (if \<not> api_available then xml_slides
         else if length xml_slides > 0 then
           (let moved_slide = last xml_slides;
                slides = butlast xml_slides;
                insert_pos = min position (length slides);
                slides' = take insert_pos slides @ moved_slide # drop insert_pos slides
            in fold (\<lambda>slide xs. xs @ [slide]) slides' [])
         else xml_slides)
      else xml_slides)"

subsection \<open>Title\<close>

text \<open>\<open>new_slide.shapes.title\<close> is the first placeholder of index 0.\<close>

fun set_title_text :: "string \<Rightarrow> shape list \<Rightarrow> shape list" where
  "set_title_text title [] = []"
| "set_title_text title (Placeholder p # rest) =
     (if ph_idx p = 0 then
        (if ph_has_text_frame p then Placeholder (p\<lparr>ph_text := title\<rparr>) # rest
         else Placeholder p # rest)
      else Placeholder p # set_title_text title rest)"
| "set_title_text title (s # rest) = s # set_title_text title rest"

definition set_title :: "string \<Rightarrow> shape list \<Rightarrow> shape list" where
  "set_title title shs = (if title \<noteq> [] then set_title_text title shs else shs)"

subsection \<open>Content\<close>

definition is_content_placeholder :: "shape \<Rightarrow> bool" where
  "is_content_placeholder s =
     (case s of
        Placeholder p \<Rightarrow> ph_type p = Some BODY \<or> ph_type p = Some OBJECT
      | _ \<Rightarrow> False)"

definition has_text_frame :: "shape \<Rightarrow> bool" where
  "has_text_frame s = (case s of Placeholder p \<Rightarrow> ph_has_text_frame p | _ \<Rightarrow> True)"

definition write_text :: "string \<Rightarrow> shape \<Rightarrow> shape" where
  "write_text text s =
     (case s of
        Placeholder p \<Rightarrow> Placeholder (p\<lparr>ph_text := text\<rparr>)
      | TextBox l t w h old \<Rightarrow> TextBox l t w h text
      | Picture l t w h \<Rightarrow> Picture l t w h)"

text \<open>The positions, in the slide's shapes, of the placeholders collected in
  \<open>content_placeholders\<close>.\<close>

definition content_placeholders :: "shape list \<Rightarrow> nat list" where
  "content_placeholders shs = filter (\<lambda>i. is_content_placeholder (shs ! i)) [0..<length shs]"

text \<open>Two content boxes. With two placeholders both texts are written inside one \<open>try\<close>:
  a placeholder without a text frame raises there, and what was written before stays.\<close>

definition two_content :: "string \<Rightarrow> string \<Rightarrow> shape list \<Rightarrow> shape list" where
  "two_content text text2 shs =
     (let cps = content_placeholders shs in
      if length cps \<ge> 2 then
        (let i1 = cps ! 0; i2 = cps ! 1 in
         if \<not> has_text_frame (shs ! i1) then shs
         else let shs1 = shs[i1 := write_text text (shs ! i1)] in
           if \<not> has_text_frame (shs1 ! i2) then shs1
           else shs1[i2 := write_text text2 (shs1 ! i2)])
      else shs @ [TextBox (Inches 0.5) (Inches 1.8) (Inches 4.2) (Inches 5) text,
                  TextBox (Inches 5.2) (Inches 1.8) (Inches 4.2) (Inches 5) text2])"

text \<open>One content box: the loop over the placeholders, \<open>Some\<close> when \<open>content_added\<close>.\<close>

fun single_content_loop :: "string \<Rightarrow> shape list \<Rightarrow> shape list option" where
  "single_content_loop text [] = None"
| "single_content_loop text (Placeholder p # rest) =
     (if (ph_type p = Some BODY \<or> ph_type p = Some OBJECT) \<and> ph_has_text_frame p
      then Some (Placeholder (p\<lparr>ph_text := text\<rparr>) # rest)
      else map_option ((#) (Placeholder p)) (single_content_loop text rest))"
| "single_content_loop text (s # rest) = map_option ((#) s) (single_content_loop text rest)"

definition single_content :: "string \<Rightarrow> shape list \<Rightarrow> shape list" where
  "single_content text shs =
     (case single_content_loop text shs of
        Some shs' \<Rightarrow> shs'
      | None \<Rightarrow> shs @ [TextBox (Inches 0.5) (Inches 1.8) (Inches 9) (Inches 5) text])"

definition set_content :: "string \<Rightarrow> string \<Rightarrow> string \<Rightarrow> shape list \<Rightarrow> shape list" where
  "set_content layout_type text text2 shs =
     (if layout_type = ''title_two_content'' \<and> text \<noteq> [] \<and> text2 \<noteq> []
      then two_content text text2 shs
      else if text \<noteq> [] then single_content text shs
      else shs)"

subsection \<open>Image\<close>

text \<open>The first picture placeholder, taken out of the shapes, with its geometry.\<close>

fun take_picture_placeholder ::
  "shape list \<Rightarrow> (shape list \<times> int \<times> int \<times> int \<times> int) option" where
  "take_picture_placeholder [] = None"
| "take_picture_placeholder (Placeholder p # rest) =
     (if ph_type p = Some PICTURE
      then Some (rest, ph_left p, ph_top p, ph_width p, ph_height p)
      else map_option (\<lambda>(shs, g). (Placeholder p # shs, g)) (take_picture_placeholder rest))"
| "take_picture_placeholder (s # rest) =
     map_option (\<lambda>(shs, g). (s # shs, g)) (take_picture_placeholder rest)"

text \<open>The size of a picture added with \<open>height=max_height\<close>, after the test of its
  width: \<open>pic_width\<close> is the width python-pptx gave it.\<close>

definition fit_picture :: "(real \<Rightarrow> real) \<Rightarrow> int \<Rightarrow> int \<times> int" where
  "fit_picture rnd pic_width =
     (let max_height = Inches 5;
          max_width = Inches 3;
          pic_height = max_height
      in if pic_width > max_width then
           (let aspect_ratio = rnd (real_of_int pic_height / real_of_int pic_width)
            in (max_width, py_int (rnd (real_of_int max_width * aspect_ratio))))
         else (pic_width, pic_height))"

definition add_image :: "(real \<Rightarrow> real) \<Rightarrow> image option \<Rightarrow> shape list \<Rightarrow> shape list" where
  "add_image rnd img shs =
     (case img of
        None \<Rightarrow> shs
      | Some i \<Rightarrow>
          (case take_picture_placeholder shs of
             Some (shs', l, t, w, h) \<Rightarrow> shs' @ [Picture l t w h]
           | None \<Rightarrow>
               (case fit_picture rnd (scaled_width i) of
                  (w, h) \<Rightarrow> shs @ [Picture (Inches 6.5) (Inches 1.5) w h])))"

subsection \<open>The request\<close>

text \<open>Title, content and image, in this order, on the shapes of the new slide.\<close>

definition populate ::
  "(real \<Rightarrow> real) \<Rightarrow> string \<Rightarrow> string \<Rightarrow> string \<Rightarrow> string \<Rightarrow> image option \<Rightarrow> shape list
   \<Rightarrow> shape list" where
  "populate rnd layout_type title text text2 img shs =
     add_image rnd img (set_content layout_type text text2 (set_title title shs))"

text \<open>
  \<open>add_slide\<close> from the form data on: the fields of the request are the stripped form
  values, \<open>req_position\<close> is \<open>None\<close> when the field is not a number. The checks of the
  uploaded files (presence, extension, size) come before and are not modelled, nor is
  saving the result.
\<close>

definition add_slide :: "env \<Rightarrow> request \<Rightarrow> presentation \<Rightarrow> add_slide_error + presentation" where
  "add_slide e req prs =
     (case PREDEFINED_LAYOUTS (req_layout req) of
        None \<Rightarrow> Inl ValidLayoutTypeRequired
      | Some layout_config \<Rightarrow>
          if content_boxes layout_config > 0 \<and> req_text req = [] then Inl ContentTextRequired
          else if content_boxes layout_config = 2 \<and> req_text2 req = [] then Inl SecondContentRequired
          else
            (case req_position req of
               None \<Rightarrow> Inl PositionNotNumber
             | Some pos \<Rightarrow>
                 if pos < 0 then Inl PositionNegative
                 else if length (slide_layouts prs) = 0 then Inl NoSlideLayouts
                 else
                   (case find_layout_by_type (slide_layouts prs) (req_layout req) of
                      None \<Rightarrow> Inl NoSuitableLayout
                    | Some slide_layout \<Rightarrow>
                        (let total_slides = length (sldIdLst prs);
                             position = (if pos < 0 then 0
                                         else if pos > int total_slides then int total_slides
                                         else pos);
                             new_id = next_slide_id (sldIdLst prs);
                             new_shapes = map Placeholder (clone_placeholders e slide_layout);
                             xml_slides = sldIdLst prs @ [new_id];
                             xml_slides' = reposition (sldIdLst_available e) (nat position)
                                             total_slides xml_slides;
                             new_slide = \<lparr>shapes = populate (fl e) (req_layout req) (req_title req)
                                            (req_text req) (req_text2 req) (req_image req) new_shapes,
                                          background = Some (255, 255, 255)\<rparr>
                         in Inr (prs\<lparr>sldIdLst := xml_slides',
                                     slide_parts := (slide_parts prs)(new_id \<mapsto> new_slide)\<rparr>)))))"

text \<open>Helpers for stating properties: the text boxes of a slide, and whether two
  rectangles share a point.\<close>

definition is_textbox :: "shape \<Rightarrow> bool" where
  "is_textbox s = (case s of TextBox l t w h text \<Rightarrow> True | _ \<Rightarrow> False)"

definition rect_of :: "shape \<Rightarrow> int \<times> int \<times> int \<times> int" where
  "rect_of s =
     (case s of
        Placeholder p \<Rightarrow> (ph_left p, ph_top p, ph_width p, ph_height p)
      | TextBox l t w h text \<Rightarrow> (l, t, w, h)
      | Picture l t w h \<Rightarrow> (l, t, w, h))"

definition overlapping :: "shape \<Rightarrow> shape \<Rightarrow> bool" where
  "overlapping a b =
     (case (rect_of a, rect_of b) of
        ((l1, t1, w1, h1), (l2, t2, w2, h2)) \<Rightarrow>
          l1 < l2 + w2 \<and> l2 < l1 + w1 \<and> t1 < t2 + h2 \<and> t2 < t1 + h1)"

text \<open>A rounding that is exact, and a template for the examples.\<close>

definition exact :: "real \<Rightarrow> real" where
  "exact x = x"

definition example_env :: "bool \<Rightarrow> env" where
  "example_env api = \<lparr>clone_placeholders = placeholders, sldIdLst_available = api, fl = exact\<rparr>"

definition is_picture_placeholder :: "shape \<Rightarrow> bool" where
  "is_picture_placeholder s =
     (case s of Placeholder p \<Rightarrow> ph_type p = Some PICTURE | _ \<Rightarrow> False)"

definition example_prs :: presentation where
  "example_prs =
     \<lparr>slide_layouts = [layout_of ''Mango Cover'' [TITLE, BODY],
                        layout_of ''Title and Content'' [TITLE, BODY],
                        layout_of ''Title and Two Content'' [TITLE, BODY]],
      sldIdLst = [256, 257],
      slide_parts = (\<lambda>i. if i = 256 \<or> i = 257
                          then Some \<lparr>shapes = [], background = None\<rparr> else None)\<rparr>"

definition example_request :: "string \<Rightarrow> int \<Rightarrow> request" where
  "example_request layout_type pos =
     \<lparr>req_layout = layout_type, req_title = ''Q3 Review'', req_text = ''Left'',
      req_text2 = ''Right'', req_image = None, req_position = Some pos\<rparr>"

section \<open>Properties of \<open>find_layout_by_type\<close>\<close>

subsection \<open>The loops\<close>

lemma exact_match_char:
  "exact_match cfg ls = None \<and> (\<forall>x\<in>set ls. excluded x \<or> lower (cfg_name cfg) \<noteq> lower (name x))
   \<or> (\<exists>pre l post. ls = pre @ l # post \<and> exact_match cfg ls = Some l \<and> \<not> excluded l
         \<and> lower (cfg_name cfg) = lower (name l)
         \<and> (\<forall>x\<in>set pre. excluded x \<or> lower (cfg_name cfg) \<noteq> lower (name x)))"
proof (induction ls)
  case Nil
  then show ?case by simp
next
  case (Cons a ls)
  show ?case
  proof (cases "\<not> excluded a \<and> lower (cfg_name cfg) = lower (name a)")
    case True
    then have "a # ls = [] @ a # ls \<and> exact_match cfg (a # ls) = Some a" by simp
    with True show ?thesis by (metis empty_iff list.set(1))
  next
    case False
    then have eq: "exact_match cfg (a # ls) = exact_match cfg ls" by auto
    from Cons.IH show ?thesis
    proof
      assume "exact_match cfg ls = None \<and> (\<forall>x\<in>set ls. excluded x \<or> lower (cfg_name cfg) \<noteq> lower (name x))"
      with False eq show ?thesis by auto
    next
      assume "\<exists>pre l post. ls = pre @ l # post \<and> exact_match cfg ls = Some l \<and> \<not> excluded l
         \<and> lower (cfg_name cfg) = lower (name l)
         \<and> (\<forall>x\<in>set pre. excluded x \<or> lower (cfg_name cfg) \<noteq> lower (name x))"
      then obtain pre l post where h: "ls = pre @ l # post" "exact_match cfg ls = Some l" "\<not> excluded l"
         "lower (cfg_name cfg) = lower (name l)"
         "\<forall>x\<in>set pre. excluded x \<or> lower (cfg_name cfg) \<noteq> lower (name x)" by blast
      have "a # ls = (a # pre) @ l # post" using h(1) by simp
      moreover have "\<forall>x\<in>set (a # pre). excluded x \<or> lower (cfg_name cfg) \<noteq> lower (name x)"
        using h(5) False by auto
      ultimately show ?thesis using h(2,3,4) eq by metis
    qed
  qed
qed



lemma keyword_loop_none:
  "\<forall>x\<in>set ls. \<not> excluded x \<longrightarrow> keyword_score kws (lower (name x)) \<le> bs
   \<Longrightarrow> keyword_loop kws ls bm bs = (bm, bs)"
  by (induction ls arbitrary: bm bs) (auto simp: Let_def)


lemma keyword_score_nonneg: "0 \<le> keyword_score kws n"
  by (induction kws) auto

lemma keyword_score_zero:
  "keyword_score kws n = 0 \<longleftrightarrow> (\<forall>k\<in>set kws. \<not> contains k n)"
proof (induction kws)
  case Nil
  then show ?case by simp
next
  case (Cons k kws)
  have "0 \<le> keyword_score kws n" by (rule keyword_score_nonneg)
  with Cons show ?case by auto
qed

lemma structure_loop_char:
  "structure_loop t ls bm bs = (bm, bs) \<and> (\<forall>x\<in>set ls. \<not> excluded x \<longrightarrow> structure_score t x \<le> bs)
   \<or> (\<exists>pre l post. ls = pre @ l # post
         \<and> structure_loop t ls bm bs = (Some l, structure_score t l)
         \<and> \<not> excluded l \<and> bs < structure_score t l
         \<and> (\<forall>x\<in>set pre. \<not> excluded x \<longrightarrow> structure_score t x < structure_score t l)
         \<and> (\<forall>x\<in>set post. \<not> excluded x \<longrightarrow> structure_score t x \<le> structure_score t l))"
proof (induction ls arbitrary: bm bs)
  case Nil
  then show ?case by simp
next
  case (Cons a ls)
  let ?sc = "structure_score t"
  show ?case
  proof (cases "\<not> excluded a \<and> ?sc a > bs")
    case True
    then have eq: "structure_loop t (a # ls) bm bs = structure_loop t ls (Some a) (?sc a)"
      by (simp add: Let_def)
    from Cons.IH[of "Some a" "?sc a"] show ?thesis
    proof
      assume h: "structure_loop t ls (Some a) (?sc a) = (Some a, ?sc a) \<and> (\<forall>x\<in>set ls. \<not> excluded x \<longrightarrow> ?sc x \<le> ?sc a)"
      have "a # ls = [] @ a # ls" by simp
      moreover have "\<forall>x\<in>set []. \<not> excluded x \<longrightarrow> ?sc x < ?sc a" by simp
      ultimately show ?thesis using h True eq by metis
    next
      assume "\<exists>pre l post. ls = pre @ l # post
         \<and> structure_loop t ls (Some a) (?sc a) = (Some l, ?sc l)
         \<and> \<not> excluded l \<and> ?sc a < ?sc l
         \<and> (\<forall>x\<in>set pre. \<not> excluded x \<longrightarrow> ?sc x < ?sc l)
         \<and> (\<forall>x\<in>set post. \<not> excluded x \<longrightarrow> ?sc x \<le> ?sc l)"
      then obtain pre l post where h: "ls = pre @ l # post"
         "structure_loop t ls (Some a) (?sc a) = (Some l, ?sc l)"
         "\<not> excluded l" "?sc a < ?sc l"
         "\<forall>x\<in>set pre. \<not> excluded x \<longrightarrow> ?sc x < ?sc l"
         "\<forall>x\<in>set post. \<not> excluded x \<longrightarrow> ?sc x \<le> ?sc l" by blast
      have 1: "a # ls = (a # pre) @ l # post" using h(1) by simp
      have 2: "\<forall>x\<in>set (a # pre). \<not> excluded x \<longrightarrow> ?sc x < ?sc l" using h(4,5) by simp
      have 3: "bs < ?sc l" using True h(4) by linarith
      show ?thesis using 1 2 3 h(2,3,6) eq by metis
    qed
  next
    case False
    then have eq: "structure_loop t (a # ls) bm bs = structure_loop t ls bm bs"
      by (auto simp add: Let_def)
    from False have le: "\<not> excluded a \<longrightarrow> ?sc a \<le> bs" by auto
    from Cons.IH[of bm bs] show ?thesis
    proof
      assume "structure_loop t ls bm bs = (bm, bs) \<and> (\<forall>x\<in>set ls. \<not> excluded x \<longrightarrow> ?sc x \<le> bs)"
      with eq le show ?thesis by auto
    next
      assume "\<exists>pre l post. ls = pre @ l # post
         \<and> structure_loop t ls bm bs = (Some l, ?sc l)
         \<and> \<not> excluded l \<and> bs < ?sc l
         \<and> (\<forall>x\<in>set pre. \<not> excluded x \<longrightarrow> ?sc x < ?sc l)
         \<and> (\<forall>x\<in>set post. \<not> excluded x \<longrightarrow> ?sc x \<le> ?sc l)"
      then obtain pre l post where h: "ls = pre @ l # post"
         "structure_loop t ls bm bs = (Some l, ?sc l)"
         "\<not> excluded l" "bs < ?sc l"
         "\<forall>x\<in>set pre. \<not> excluded x \<longrightarrow> ?sc x < ?sc l"
         "\<forall>x\<in>set post. \<not> excluded x \<longrightarrow> ?sc x \<le> ?sc l" by blast
      have 1: "a # ls = (a # pre) @ l # post" using h(1) by simp
      have 2: "\<forall>x\<in>set (a # pre). \<not> excluded x \<longrightarrow> ?sc x < ?sc l" using h(4,5) le by auto
      show ?thesis using 1 2 h(2,3,4,6) eq by metis
    qed
  qed
qed


lemma scan_placeholders_eq:
  "scan_placeholders phs s =
     \<lparr>has_title = (has_title s \<or> Some TITLE \<in> set (map ph_type phs)),
      body_count = body_count s + length (filter (\<lambda>p. ph_type p = Some BODY \<or> ph_type p = Some OBJECT) phs),
      has_picture = (has_picture s \<or> Some PICTURE \<in> set (map ph_type phs)),
      placeholder_count = placeholder_count s + length phs\<rparr>"
proof (induction phs arbitrary: s)
  case Nil
  then show ?case by simp
next
  case (Cons p phs)
  show ?case
    by (cases "ph_type p") (auto simp add: Cons.IH Let_def split: ph_type.splits)
qed

lemma score_qualifying:
  "required_composition t l \<Longrightarrow>
   structure_score t l = (if t = ''title_image'' then 200 else 100) - int (total_placeholders l)"
  by (auto simp: required_composition_def structure_score_def total_placeholders_def Let_def split: if_splits)

lemma score_not_qualifying:
  "\<not> required_composition t l \<Longrightarrow> structure_score t l \<le> 50"
  by (auto simp: required_composition_def structure_score_def total_placeholders_def Let_def split: if_splits)

subsection \<open>An unknown layout type\<close>

text \<open>
  Claim C10. With a layout-type key that is not a key of \<open>PREDEFINED_LAYOUTS\<close>,
  \<open>find_layout_by_type\<close> returns \<open>None\<close> whatever the list of layouts is: the first
  statement of the function returns before any layout is read.
\<close>

theorem unknown_type_none:
  "PREDEFINED_LAYOUTS layout_type = None \<Longrightarrow> find_layout_by_type ls layout_type = None"
  by (simp add: find_layout_by_type_def)

theorem unknown_type_none_witness:
  "find_layout_by_type [layout_of ''Title and Content'' [TITLE, BODY]] ''blank'' = None"
  using unknown_type_none [of "''blank''" "[layout_of ''Title and Content'' [TITLE, BODY]]"]
  by (simp add: PREDEFINED_LAYOUTS_def)

subsection \<open>The exact-name try comes first\<close>

text \<open>
  Claim C4. For a key of the catalog and a list holding a non-excluded layout whose
  lowercase name equals the type's display name in lowercase, \<open>find_layout_by_type\<close>
  returns the first such layout of the list: the list splits into \<open>pre @ l # post\<close> with
  \<open>l\<close> returned and no layout of \<open>pre\<close> both non-excluded and of that name. The keyword,
  structure and fallback tries are not reached.
\<close>

theorem exact_name_first:
  assumes cfg: "PREDEFINED_LAYOUTS t = Some cfg"
    and ex: "\<exists>x\<in>set ls. \<not> excluded x \<and> lower (name x) = lower (cfg_name cfg)"
  shows "\<exists>pre l post. ls = pre @ l # post \<and> find_layout_by_type ls t = Some l
           \<and> \<not> excluded l \<and> lower (name l) = lower (cfg_name cfg)
           \<and> (\<forall>x\<in>set pre. excluded x \<or> lower (name x) \<noteq> lower (cfg_name cfg))"
proof -
  from exact_match_char[of cfg ls] ex
  obtain pre l post where h: "ls = pre @ l # post" "exact_match cfg ls = Some l" "\<not> excluded l"
      "lower (cfg_name cfg) = lower (name l)"
      "\<forall>x\<in>set pre. excluded x \<or> lower (cfg_name cfg) \<noteq> lower (name x)"
    by metis
  have "find_layout_by_type ls t = Some l" using cfg h(2) by (simp add: find_layout_by_type_def)
  then show ?thesis using h by metis
qed

theorem exact_name_first_witness:
  "\<exists>pre l post.
     [layout_of ''Mango Cover'' [TITLE, BODY], layout_of ''Title and Content'' [TITLE, BODY]]
       = pre @ l # post
     \<and> find_layout_by_type
         [layout_of ''Mango Cover'' [TITLE, BODY], layout_of ''Title and Content'' [TITLE, BODY]]
         ''title_content'' = Some l
     \<and> \<not> excluded l \<and> lower (name l) = lower ''Title and Content''
     \<and> (\<forall>x\<in>set pre. excluded x \<or> lower (name x) \<noteq> lower ''Title and Content'')"
  using exact_name_first [of "''title_content''" "the (PREDEFINED_LAYOUTS ''title_content'')"
    "[layout_of ''Mango Cover'' [TITLE, BODY], layout_of ''Title and Content'' [TITLE, BODY]]"]
  by (simp add: PREDEFINED_LAYOUTS_def layout_of_def excluded_def exclude_patterns_def
      lower_def lower_char_def)

subsection \<open>Excluded layouts\<close>




subsection \<open>The structure try\<close>

text \<open>
  Claim C2, as stated, fails: a score is \<open>100 - placeholder_count\<close> and must be positive
  to be kept, so a qualifying layout with a hundred placeholders is never chosen. Here no
  layout matches by name or keyword, layout \<open>b\<close> (a title, a body and 98 other
  placeholders) has the composition \<open>title_content\<close> asks for, and the result is layout
  \<open>a\<close>, which has a picture placeholder and so does not qualify: it comes from the
  fallback.
\<close>

theorem structure_tier_hundred_placeholders:
  "(case PREDEFINED_LAYOUTS ''title_content'' of
      None \<Rightarrow> False
    | Some cfg \<Rightarrow>
        \<not> excluded (layout_of ''a'' [TITLE, BODY, PICTURE])
        \<and> \<not> excluded (layout_of ''b'' (TITLE # BODY # replicate 98 OTHER))
        \<and> lower (name (layout_of ''a'' [TITLE, BODY, PICTURE])) \<noteq> lower (cfg_name cfg)
        \<and> lower (name (layout_of ''b'' (TITLE # BODY # replicate 98 OTHER))) \<noteq> lower (cfg_name cfg)
        \<and> keyword_score (cfg_keywords cfg) (lower (name (layout_of ''a'' [TITLE, BODY, PICTURE]))) = 0
        \<and> keyword_score (cfg_keywords cfg)
             (lower (name (layout_of ''b'' (TITLE # BODY # replicate 98 OTHER)))) = 0)
   \<and> required_composition ''title_content'' (layout_of ''b'' (TITLE # BODY # replicate 98 OTHER))
   \<and> \<not> required_composition ''title_content'' (layout_of ''a'' [TITLE, BODY, PICTURE])
   \<and> find_layout_by_type
        [layout_of ''a'' [TITLE, BODY, PICTURE], layout_of ''b'' (TITLE # BODY # replicate 98 OTHER)]
        ''title_content''
      = Some (layout_of ''a'' [TITLE, BODY, PICTURE])"
proof -
  let ?a = "layout_of ''a'' [TITLE, BODY, PICTURE]"
  let ?b = "layout_of ''b'' (TITLE # BODY # replicate 98 OTHER)"
  have names: "name ?a = ''a''" "name ?b = ''b''" by (simp_all add: layout_of_def)
  have ea: "\<not> excluded ?a" and eb: "\<not> excluded ?b"
    by (simp_all add: excluded_def exclude_patterns_def names lower_def lower_char_def)
  have sa: "layout_structure ?a
      = \<lparr>has_title = True, body_count = 1, has_picture = True, placeholder_count = 3\<rparr>"
    by (simp add: layout_structure_def layout_of_def example_ph_def)
  have sb: "layout_structure ?b
      = \<lparr>has_title = True, body_count = 1, has_picture = False, placeholder_count = 100\<rparr>"
    by (simp add: layout_structure_def layout_of_def scan_placeholders_eq example_ph_def)
  have sca: "structure_score ''title_content'' ?a = 0"
    by (simp add: structure_score_def sa)
  have scb: "structure_score ''title_content'' ?b = 0"
    by (simp add: structure_score_def sb)
  have fb: "fallback_loop [?a, ?b] = Some ?a"
    by (simp add: layout_of_def example_ph_def)
  have kwa: "keyword_score [''title'', ''content'', ''body'', ''text'', ''only''] (lower (name ?a)) = 0"
    by (simp add: names lower_def lower_char_def)
  have kwb: "keyword_score [''title'', ''content'', ''body'', ''text'', ''only''] (lower (name ?b)) = 0"
    by (simp add: names lower_def lower_char_def)
  have na: "lower (name ?a) \<noteq> lower ''Title and Content''"
    and nb: "lower (name ?b) \<noteq> lower ''Title and Content''"
    by (simp_all add: names lower_def lower_char_def)
  have qb: "required_composition ''title_content'' ?b"
    by (simp add: required_composition_def sb)
  have qa: "\<not> required_composition ''title_content'' ?a"
    by (simp add: required_composition_def sa)
  let ?cfg = "\<lparr>cfg_name = ''Title and Content'',
      cfg_keywords = [''title'', ''content'', ''body'', ''text'', ''only''],
      has_image = False, content_boxes = 1, prefer_simple = False\<rparr>"
  have p: "PREDEFINED_LAYOUTS ''title_content'' = Some ?cfg"
    by (simp add: PREDEFINED_LAYOUTS_def)
  have ex: "exact_match ?cfg [?a, ?b] = None"
    using ea eb na nb by simp
  have "keyword_loop (cfg_keywords ?cfg) [?a, ?b] None 0 = (None, 0)"
    using ea eb kwa kwb by (simp del: keyword_score.simps)
  then have kw: "keyword_match ?cfg [?a, ?b] = None"
    by (simp add: keyword_match_def)
  have "structure_loop ''title_content'' [?a, ?b] None 0 = (None, 0)"
    using ea eb sca scb by simp
  then have st: "structure_match ''title_content'' [?a, ?b] = None"
    by (simp add: structure_match_def)
  have fm: "fallback_match [?a, ?b] = Some ?a"
    by (simp only: fallback_match_def fb option.case)
  have f: "find_layout_by_type [?a, ?b] ''title_content'' = Some ?a"
    by (simp only: find_layout_by_type_def p ex kw st fm option.case)
  show ?thesis
    using ea eb na nb kwa kwb qa qb f by (simp only: p option.case layout_config.simps) simp
qed

text \<open>
  Claim C2, amended. For a key of the catalog and a list in which no non-excluded layout
  matches by exact name or by keyword, and at least one non-excluded layout has the
  required composition and fewer than 100 placeholders, \<open>find_layout_by_type\<close> returns a
  non-excluded layout \<open>l\<close> with the required composition such that every qualifying
  layout before it in the list has strictly more placeholders and every qualifying layout
  after it has at least as many: the qualifier with the fewest placeholders, the first of
  them in list order.
\<close>

theorem structure_tier_fewest:
  assumes cfg: "PREDEFINED_LAYOUTS t = Some cfg"
    and no_exact: "\<forall>x\<in>set ls. \<not> excluded x \<longrightarrow> lower (name x) \<noteq> lower (cfg_name cfg)"
    and no_kw: "\<forall>x\<in>set ls. \<not> excluded x \<longrightarrow> (\<forall>k\<in>set (cfg_keywords cfg). \<not> contains k (lower (name x)))"
    and q: "\<exists>q\<in>set ls. \<not> excluded q \<and> required_composition t q \<and> total_placeholders q < 100"
  shows "\<exists>pre l post. ls = pre @ l # post \<and> find_layout_by_type ls t = Some l
           \<and> \<not> excluded l \<and> required_composition t l
           \<and> (\<forall>x\<in>set pre. \<not> excluded x \<and> required_composition t x
                  \<longrightarrow> total_placeholders l < total_placeholders x)
           \<and> (\<forall>x\<in>set post. \<not> excluded x \<and> required_composition t x
                  \<longrightarrow> total_placeholders l \<le> total_placeholders x)"
proof -
  let ?sc = "structure_score t"
  let ?base = "(if t = ''title_image'' then 200 else 100) :: int"
  have ex: "exact_match cfg ls = None"
    using exact_match_char[of cfg ls] no_exact by (metis in_set_conv_decomp)
  have "\<forall>x\<in>set ls. \<not> excluded x \<longrightarrow> keyword_score (cfg_keywords cfg) (lower (name x)) \<le> 0"
  proof (intro ballI impI)
    fix x assume "x \<in> set ls" "\<not> excluded x"
    with no_kw have "\<forall>k\<in>set (cfg_keywords cfg). \<not> contains k (lower (name x))" by blast
    then have "keyword_score (cfg_keywords cfg) (lower (name x)) = 0"
      by (simp only: keyword_score_zero)
    then show "keyword_score (cfg_keywords cfg) (lower (name x)) \<le> 0" by simp
  qed
  then have "keyword_loop (cfg_keywords cfg) ls None 0 = (None, 0)"
    by (rule keyword_loop_none)
  then have kw: "keyword_match cfg ls = None" by (simp add: keyword_match_def)
  from q obtain q where q: "q \<in> set ls" "\<not> excluded q" "required_composition t q" "total_placeholders q < 100"
    by blast
  have scq: "?sc q > 100 \<or> (t \<noteq> ''title_image'' \<and> ?sc q > 0)"
    using score_qualifying[OF q(3)] q(4) by auto
  then have qpos: "?sc q > 0" by auto
  from structure_loop_char[of t ls None 0] q(1,2) qpos
  obtain pre l post where h: "ls = pre @ l # post"
     "structure_loop t ls None 0 = (Some l, ?sc l)" "\<not> excluded l" "0 < ?sc l"
     "\<forall>x\<in>set pre. \<not> excluded x \<longrightarrow> ?sc x < ?sc l"
     "\<forall>x\<in>set post. \<not> excluded x \<longrightarrow> ?sc x \<le> ?sc l"
    by (metis linorder_not_less)
  have ge: "?sc q \<le> ?sc l" using h(1,5,6) q(1,2) by (auto simp: less_imp_le)
  have lq: "required_composition t l"
  proof (rule ccontr)
    assume n: "\<not> required_composition t l"
    then have "?sc l \<le> 50" by (rule score_not_qualifying)
    moreover have "t = ''title_image''" using n h(4)
      by (auto simp: required_composition_def structure_score_def Let_def split: if_splits)
    ultimately show False using scq ge by auto
  qed
  have scl: "?sc l = ?base - int (total_placeholders l)" using score_qualifying[OF lq] .
  have fl: "find_layout_by_type ls t = Some l"
    using cfg ex kw h(2) by (simp add: find_layout_by_type_def structure_match_def)
  have pre: "\<forall>x\<in>set pre. \<not> excluded x \<and> required_composition t x \<longrightarrow> total_placeholders l < total_placeholders x"
    using h(5) scl score_qualifying by fastforce
  have post: "\<forall>x\<in>set post. \<not> excluded x \<and> required_composition t x \<longrightarrow> total_placeholders l \<le> total_placeholders x"
    using h(6) scl score_qualifying by fastforce
  show ?thesis using h(1,3) lq fl pre post by blast
qed

theorem structure_tier_fewest_witness:
  "\<exists>pre l post.
     [layout_of ''alpha'' [TITLE, BODY, OTHER], layout_of ''beta'' [TITLE, BODY]] = pre @ l # post
     \<and> find_layout_by_type [layout_of ''alpha'' [TITLE, BODY, OTHER], layout_of ''beta'' [TITLE, BODY]]
         ''title_content'' = Some l
     \<and> \<not> excluded l \<and> required_composition ''title_content'' l
     \<and> (\<forall>x\<in>set pre. \<not> excluded x \<and> required_composition ''title_content'' x
            \<longrightarrow> total_placeholders l < total_placeholders x)
     \<and> (\<forall>x\<in>set post. \<not> excluded x \<and> required_composition ''title_content'' x
            \<longrightarrow> total_placeholders l \<le> total_placeholders x)"
  using structure_tier_fewest [of "''title_content''" "the (PREDEFINED_LAYOUTS ''title_content'')"
    "[layout_of ''alpha'' [TITLE, BODY, OTHER], layout_of ''beta'' [TITLE, BODY]]"]
  by (simp add: PREDEFINED_LAYOUTS_def layout_of_def example_ph_def excluded_def
      exclude_patterns_def lower_def lower_char_def required_composition_def
      total_placeholders_def layout_structure_def)

section \<open>Properties of \<open>process_paragraph\<close>\<close>





text \<open>The flag does not change what is written, and a text frame's paragraphs are each
  processed on their own.\<close>

lemma process_paragraph_any_flag:
  "fst (process_paragraph sub replacements runs updated)
     = fst (process_paragraph sub replacements runs updated')"
  by (simp add: process_paragraph_def Let_def)

lemma process_paragraphs_each:
  "fst (process_paragraphs sub replacements ps updated)
     = map (\<lambda>runs. fst (process_paragraph sub replacements runs False)) ps"
proof (induction ps arbitrary: updated)
  case Nil
  then show ?case by simp
next
  case (Cons p ps)
  obtain p' u1 where a: "process_paragraph sub replacements p updated = (p', u1)"
    by (cases "process_paragraph sub replacements p updated") auto
  obtain ps' u2 where b: "process_paragraphs sub replacements ps u1 = (ps', u2)"
    by (cases "process_paragraphs sub replacements ps u1") auto
  have "p' = fst (process_paragraph sub replacements p False)"
    using a process_paragraph_any_flag[of sub replacements p updated False] by simp
  moreover have "ps' = map (\<lambda>runs. fst (process_paragraph sub replacements runs False)) ps"
    using b Cons.IH[of u1] by simp
  ultimately show ?case by (simp add: a b)
qed


section \<open>Properties of \<open>load_replacements\<close>\<close>

lemma fold_update_distinct:
  "distinct (map fst m) \<Longrightarrow> distinct (map fst (fold (\<lambda>(i, k, v). AList.update k v) es m))"
  by (induction es arbitrary: m) (auto simp: distinct_update)

lemma load_lines_replacements:
  "st_replacements (load_lines idx lines st)
     = fold (\<lambda>(i, k, v). AList.update k v) (numbered_entries idx lines) (st_replacements st)"
  by (induction lines arbitrary: idx st)
     (auto simp: Let_def split: parsed_line.splits option.splits)

lemma map_of_fold_update:
  "map_of (fold (\<lambda>(i, k, v). AList.update k v) es m) = map_of (rev (map snd es) @ m)"
proof (induction es arbitrary: m)
  case Nil
  then show ?case by simp
next
  case (Cons e es)
  obtain i k v where e: "e = (i, k, v)" by (cases e) auto
  have "map_of (fold (\<lambda>(i, k, v). AList.update k v) (e # es) m)
      = map_of (rev (map snd es) @ AList.update k v m)"
    using Cons.IH[of "AList.update k v m"] by (simp add: e)
  also have "\<dots> = map_of (rev (map snd (e # es)) @ m)"
    by (simp add: e update_conv' map_add_def fun_eq_iff split: option.splits)
  finally show ?case .
qed

lemma value_differs_update:
  "value_differs (xs @ AList.update key val m) k v = value_differs (xs @ (key, val) # m) k v"
  by (simp add: value_differs_def update_conv' map_add_def split: option.splits)

lemma load_lines_duplicates:
  "st_duplicates (load_lines idx lines st)
     = st_duplicates st
       @ map (\<lambda>(pre, (i, k, v)). (i, k))
           (filter (\<lambda>(pre, (i, k, v)). value_differs (rev (map snd pre) @ st_replacements st) k v)
              (zip (prefixes (numbered_entries idx lines)) (numbered_entries idx lines)))"
proof (induction lines arbitrary: idx st)
  case Nil
  then show ?case by simp
next
  case (Cons raw lines)
  show ?case
  proof (cases "parse_line raw")
    case Skip
    then show ?thesis using Cons.IH by simp
  next
    case Malformed
    then show ?thesis using Cons.IH by simp
  next
    case (Entry key val)
    let ?es = "numbered_entries (idx + 1) lines"
    let ?e = "(idx, key, val)"
    define st2 where "st2 =
      (if value_differs (st_replacements st) key val
       then st\<lparr>st_duplicates := st_duplicates st @ [(idx, key)]\<rparr> else st)
      \<lparr>st_replacements := AList.update key val (st_replacements st)\<rparr>"
    define g :: "(nat \<times> string \<times> string) list \<times> (nat \<times> string \<times> string) \<Rightarrow> nat \<times> string"
      where "g = (\<lambda>(pre, (i, k, v)). (i, k))"
    define P where "P m = (\<lambda>(pre :: (nat \<times> string \<times> string) list, (i :: nat, k, v)).
      value_differs (rev (map snd pre) @ m) k v)" for m
    define f :: "(nat \<times> string \<times> string) list \<times> (nat \<times> string \<times> string)
        \<Rightarrow> (nat \<times> string \<times> string) list \<times> (nat \<times> string \<times> string)"
      where "f = (\<lambda>(pre, e). (?e # pre, e))"
    have r2: "st_replacements st2 = AList.update key val (st_replacements st)"
      by (simp add: st2_def)
    have d2: "st_duplicates st2 = st_duplicates st
        @ (if value_differs (st_replacements st) key val then [(idx, key)] else [])"
      by (simp add: st2_def)
    have step: "load_lines idx (raw # lines) st = load_lines (idx + 1) lines st2"
      by (simp add: Entry Let_def st2_def)
    have ne: "numbered_entries idx (raw # lines) = ?e # ?es"
      by (simp add: Entry)
    have z: "zip (prefixes (?e # ?es)) (?e # ?es) = ([], ?e) # map f (zip (prefixes ?es) ?es)"
      by (simp add: zip_map1 f_def)
    have Pf: "P (st_replacements st) \<circ> f = P (st_replacements st2)"
      by (auto simp: P_def f_def fun_eq_iff r2 value_differs_update)
    have gf: "g \<circ> f = g"
      by (auto simp: g_def f_def fun_eq_iff)
    have P0: "P (st_replacements st) ([], ?e) = value_differs (st_replacements st) key val"
      by (simp add: P_def)
    have g0: "g ([], ?e) = (idx, key)"
      by (simp add: g_def)
    have "map g (filter (P (st_replacements st)) (zip (prefixes (?e # ?es)) (?e # ?es)))
        = (if value_differs (st_replacements st) key val then [(idx, key)] else [])
          @ map g (filter (P (st_replacements st2)) (zip (prefixes ?es) ?es))"
      unfolding z by (simp add: P0 g0 filter_map Pf gf)
    moreover have "st_duplicates (load_lines (idx + 1) lines st2)
        = st_duplicates st2 @ map g (filter (P (st_replacements st2)) (zip (prefixes ?es) ?es))"
      using Cons.IH[of "idx + 1" st2] by (simp add: g_def P_def)
    ultimately have "st_duplicates (load_lines idx (raw # lines) st)
        = st_duplicates st
          @ map g (filter (P (st_replacements st)) (zip (prefixes (?e # ?es)) (?e # ?es)))"
      unfolding step by (simp add: d2)
    then show ?thesis
      by (simp only: ne g_def P_def)
  qed
qed

text \<open>
  Claim C9, as stated, fails: a key given twice with the same value is a duplicate key,
  and no warning is reported for it. The file of the two lines \<open>k=v\<close> and \<open>k=v\<close> has two
  entries of key \<open>k\<close>; it loads to the dictionary \<open>k \<mapsto> v\<close> with an empty list of
  warnings.
\<close>

theorem duplicate_same_value_no_warning:
  "map (\<lambda>(i, k, v). k) (file_entries ''k=v\<newline>k=v'') = [''k'', ''k'']
   \<and> load_replacements (Some ''k=v\<newline>k=v'') = ([], Inr [(''k'', ''v'')])"
  by (simp add: file_entries_def load_replacements_def parse_line_def strip_def lstrip_def
      rstrip_def is_space_def value_differs_def inverses_def Let_def)

text \<open>
  Claim C9, amended. For every text of a configuration file: the duplicate warnings are,
  in file order, the entries whose key is, at that line, already mapped to another value
  (the latest earlier entry of that key has a different value); \<open>load_replacements\<close>
  raises exactly when the mapping of the file's entries in which the last value of each
  key wins has keys \<open>a\<close> and \<open>b\<close> (possibly the same key) with \<open>a\<close> mapped to \<open>b\<close> and \<open>b\<close>
  to \<open>a\<close>; and otherwise it returns a dictionary that is that mapping.
\<close>

theorem load_replacements_result:
  "fst (load_replacements (Some text))
     = map (\<lambda>(pre, (i, k, v)). (i, k))
         (filter earlier_value_differs (zip (prefixes (file_entries text)) (file_entries text)))
   \<and> ((\<exists>e. snd (load_replacements (Some text)) = Inl e)
        \<longleftrightarrow> (\<exists>a b. map_of (rev (map snd (file_entries text))) a = Some b
                   \<and> map_of (rev (map snd (file_entries text))) b = Some a))
   \<and> ((\<exists>m. snd (load_replacements (Some text)) = Inr m
             \<and> map_of m = map_of (rev (map snd (file_entries text))))
        \<longleftrightarrow> \<not> (\<exists>a b. map_of (rev (map snd (file_entries text))) a = Some b
                     \<and> map_of (rev (map snd (file_entries text))) b = Some a))"
proof -
  let ?lines = "split_lines (normalize_newlines text)"
  let ?st0 = "\<lparr>st_replacements = [], st_malformed = [], st_duplicates = []\<rparr>"
  let ?st = "load_lines 1 ?lines ?st0"
  let ?m = "st_replacements ?st"
  let ?M = "map_of (rev (map snd (file_entries text)))"
  have M: "map_of ?m = ?M"
    by (simp add: load_lines_replacements map_of_fold_update file_entries_def)
  have inv: "inverses ?m \<noteq> [] \<longleftrightarrow> (\<exists>a b. ?M a = Some b \<and> ?M b = Some a)"
  proof
    assume "inverses ?m \<noteq> []"
    then obtain a b where "(a, b) \<in> set ?m" "map_of ?m b = Some a"
      by (auto simp: inverses_def filter_empty_conv)
    moreover have "distinct (map fst ?m)"
      by (simp add: load_lines_replacements fold_update_distinct)
    ultimately have "map_of ?m a = Some b \<and> map_of ?m b = Some a" by simp
    then show "\<exists>a b. ?M a = Some b \<and> ?M b = Some a" unfolding M by blast
  next
    assume "\<exists>a b. ?M a = Some b \<and> ?M b = Some a"
    then obtain a b where ab: "map_of ?m a = Some b" "map_of ?m b = Some a" unfolding M by blast
    then have "(a, b) \<in> set ?m" by (simp add: map_of_SomeD)
    with ab(2) show "inverses ?m \<noteq> []"
      by (auto simp: inverses_def filter_empty_conv)
  qed
  have w: "fst (load_replacements (Some text))
     = map (\<lambda>(pre, (i, k, v)). (i, k))
         (filter earlier_value_differs (zip (prefixes (file_entries text)) (file_entries text)))"
    by (simp add: load_replacements_def Let_def load_lines_duplicates file_entries_def
        earlier_value_differs_def)
  have r: "snd (load_replacements (Some text))
      = (if inverses ?m \<noteq> [] then Inl (ValueError (inverses ?m)) else Inr ?m)"
    by (simp add: load_replacements_def Let_def)
  show ?thesis
    using w inv M by (auto simp: r)
qed

theorem load_replacements_result_witness:
  "fst (load_replacements (Some ''k=first\<newline>k=second\<newline>'')) = [(2, ''k'')]
   \<and> snd (load_replacements (Some ''k=first\<newline>k=second\<newline>'')) = Inr [(''k'', ''second'')]
   \<and> map_of [(''k'', ''second'')]
       = map_of (rev (map snd (file_entries ''k=first\<newline>k=second\<newline>'')))"
proof -
  have e: "file_entries ''k=first\<newline>k=second\<newline>'' = [(1, ''k'', ''first''), (2, ''k'', ''second'')]"
    by (simp add: file_entries_def parse_line_def strip_def lstrip_def rstrip_def is_space_def Let_def)
  have r: "snd (load_replacements (Some ''k=first\<newline>k=second\<newline>'')) = Inr [(''k'', ''second'')]"
    by (simp add: load_replacements_def parse_line_def strip_def lstrip_def
      rstrip_def is_space_def value_differs_def inverses_def Let_def)
  show ?thesis
    using load_replacements_result [of "''k=first\<newline>k=second\<newline>''"]
    by (simp add: e r earlier_value_differs_def value_differs_def)
qed

section \<open>Properties of \<open>add_slide\<close>\<close>

subsection \<open>The position of the new slide\<close>

lemma rebuild_id_list: "fold (\<lambda>slide xs. xs @ [slide]) ys acc = acc @ ys"
  by (induction ys arbitrary: acc) auto

lemma reposition_available:
  "reposition True position (length olds) (olds @ [new])
     = take (min position (length olds)) olds @ new # drop (min position (length olds)) olds"
  by (simp add: reposition_def rebuild_id_list Let_def)

lemma reposition_unavailable:
  "reposition False position (length olds) (olds @ [new]) = olds @ [new]"
  by (simp add: reposition_def)


lemma fold_max_ge: "fold max ids (m :: nat) \<ge> m \<and> (\<forall>i\<in>set ids. i \<le> fold max ids m)"
proof (induction ids arbitrary: m)
  case Nil
  then show ?case by simp
next
  case (Cons a ids)
  have "max a m \<le> fold max ids (max a m)" using Cons.IH[of "max a m"] by blast
  then show ?case using Cons.IH[of "max a m"] by auto
qed

lemma next_slide_id_fresh: "next_slide_id ids \<notin> set ids"
  using fold_max_ge[of 255 ids] by (auto simp: next_slide_id_def)

lemma add_slide_Inr:
  assumes "add_slide e req prs = Inr prs'"
  obtains cfg pos l where
    "PREDEFINED_LAYOUTS (req_layout req) = Some cfg"
    "\<not> (content_boxes cfg > 0 \<and> req_text req = [])"
    "\<not> (content_boxes cfg = 2 \<and> req_text2 req = [])"
    "req_position req = Some pos" "0 \<le> pos"
    "find_layout_by_type (slide_layouts prs) (req_layout req) = Some l"
    "prs' = prs\<lparr>sldIdLst := reposition (sldIdLst_available e)
                   (nat (if pos > int (length (sldIdLst prs)) then int (length (sldIdLst prs)) else pos))
                   (length (sldIdLst prs)) (sldIdLst prs @ [next_slide_id (sldIdLst prs)]),
       slide_parts := (slide_parts prs)(next_slide_id (sldIdLst prs) \<mapsto>
          \<lparr>shapes = populate (fl e) (req_layout req) (req_title req) (req_text req) (req_text2 req)
              (req_image req) (map Placeholder (clone_placeholders e l)),
           background = Some (255, 255, 255)\<rparr>)\<rparr>"
  using assms
  by (auto simp: add_slide_def Let_def split: option.splits if_splits)

lemma add_slide_succeeds:
  assumes "PREDEFINED_LAYOUTS (req_layout req) = Some cfg"
    and "req_text req \<noteq> []" and "req_text2 req \<noteq> []"
    and "req_position req = Some pos" and "0 \<le> pos"
    and "find_layout_by_type (slide_layouts prs) (req_layout req) = Some l"
    and "slide_layouts prs \<noteq> []"
  shows "\<exists>prs'. add_slide e req prs = Inr prs'"
  using assms by (simp add: add_slide_def Let_def)

text \<open>
  Claim C5. When \<open>add_slide\<close> returns a presentation, its list of slides is one longer
  than before; and when the step that moves the slide has not failed, the list is the
  old one with the new slide's id put in at the requested position clamped to the range
  from 0 to the previous number of slides: the new slide is at that index, the new id is
  none of the old ones, every other slide keeps its order and its content.
\<close>

theorem add_slide_position:
  assumes "add_slide e req prs = Inr prs'"
  shows "length (sldIdLst prs') = length (sldIdLst prs) + 1
    \<and> (sldIdLst_available e \<longrightarrow>
         (\<exists>pos p. req_position req = Some pos
            \<and> p = nat (max 0 (min pos (int (length (sldIdLst prs)))))
            \<and> sldIdLst prs' = take p (sldIdLst prs) @ next_slide_id (sldIdLst prs) # drop p (sldIdLst prs)
            \<and> sldIdLst prs' ! p = next_slide_id (sldIdLst prs)))
    \<and> next_slide_id (sldIdLst prs) \<notin> set (sldIdLst prs)
    \<and> slide_parts prs' (next_slide_id (sldIdLst prs)) \<noteq> None
    \<and> (\<forall>i\<in>set (sldIdLst prs). slide_parts prs' i = slide_parts prs i)"
proof -
  let ?olds = "sldIdLst prs"
  let ?new = "next_slide_id ?olds"
  from assms obtain pos l where
    pos: "req_position req = Some pos" "0 \<le> pos"
    and prs': "prs' = prs\<lparr>sldIdLst := reposition (sldIdLst_available e)
                   (nat (if pos > int (length ?olds) then int (length ?olds) else pos))
                   (length ?olds) (?olds @ [?new]),
       slide_parts := (slide_parts prs)(?new \<mapsto>
          \<lparr>shapes = populate (fl e) (req_layout req) (req_title req) (req_text req) (req_text2 req)
              (req_image req) (map Placeholder (clone_placeholders e l)),
           background = Some (255, 255, 255)\<rparr>)\<rparr>"
    by (rule add_slide_Inr)
  let ?p = "nat (max 0 (min pos (int (length ?olds))))"
  have p: "nat (if pos > int (length ?olds) then int (length ?olds) else pos) = ?p"
    using pos(2) by auto
  have ple: "?p \<le> length ?olds" by auto
  have ids: "sldIdLst prs' = reposition (sldIdLst_available e) ?p (length ?olds) (?olds @ [?new])"
    by (simp add: prs' p)
  have fresh: "?new \<notin> set ?olds" by (rule next_slide_id_fresh)
  have len: "length (sldIdLst prs') = length ?olds + 1"
    by (cases "sldIdLst_available e")
       (simp_all add: ids reposition_available reposition_unavailable)
  have av: "sldIdLst_available e \<Longrightarrow> sldIdLst prs' = take ?p ?olds @ ?new # drop ?p ?olds"
    using ple by (simp add: ids reposition_available min_absorb1)
  have nth: "sldIdLst_available e \<Longrightarrow> sldIdLst prs' ! ?p = ?new"
    using av ple by (simp add: nth_append)
  have parts: "slide_parts prs' ?new \<noteq> None" by (simp add: prs')
  have others: "\<forall>i\<in>set ?olds. slide_parts prs' i = slide_parts prs i"
    using fresh by (auto simp: prs')
  show ?thesis
    using len av nth fresh parts others pos(1) by blast
qed

theorem add_slide_position_witness:
  "\<exists>prs'. add_slide (example_env True) (example_request ''title_content'' 0) example_prs = Inr prs'
      \<and> sldIdLst prs' = [258, 256, 257]
      \<and> length (sldIdLst prs') = length (sldIdLst example_prs) + 1"
proof -
  have l: "find_layout_by_type (slide_layouts example_prs) ''title_content''
      = Some (layout_of ''Title and Content'' [TITLE, BODY])"
    by (simp add: find_layout_by_type_def PREDEFINED_LAYOUTS_def example_prs_def layout_of_def
        excluded_def exclude_patterns_def lower_def lower_char_def)
  have "\<exists>prs'. add_slide (example_env True) (example_request ''title_content'' 0) example_prs
      = Inr prs'"
    by (rule add_slide_succeeds [where pos = 0 and l = "layout_of ''Title and Content'' [TITLE, BODY]"
          and cfg = "the (PREDEFINED_LAYOUTS ''title_content'')"])
       (simp_all add: example_request_def l PREDEFINED_LAYOUTS_def, simp add: example_prs_def)
  then obtain prs' where r:
    "add_slide (example_env True) (example_request ''title_content'' 0) example_prs = Inr prs'"
    by blast
  have n: "next_slide_id (sldIdLst example_prs) = 258"
    by (simp add: next_slide_id_def example_prs_def)
  have "sldIdLst prs' = [258, 256, 257] \<and> length (sldIdLst prs') = length (sldIdLst example_prs) + 1"
    using add_slide_position [OF r] n
    by (simp add: example_env_def example_request_def) (simp add: example_prs_def)
  with r show ?thesis by blast
qed



subsection \<open>Two content boxes on a slide with fewer than two body placeholders\<close>

lemma content_placeholders_length:
  "length (content_placeholders shs) = length (filter is_content_placeholder shs)"
proof -
  have "filter is_content_placeholder (map ((!) shs) [0..<length shs])
      = map ((!) shs) (filter (is_content_placeholder \<circ> (!) shs) [0..<length shs])"
    by (rule filter_map)
  then have "length (filter is_content_placeholder shs)
      = length (filter (is_content_placeholder \<circ> (!) shs) [0..<length shs])"
    by (simp add: map_nth)
  then show ?thesis by (simp add: content_placeholders_def comp_def)
qed

lemma set_title_text_textboxes:
  "filter is_textbox (set_title_text title shs) = filter is_textbox shs"
  by (induction title shs rule: set_title_text.induct) (auto simp: is_textbox_def)

lemma set_title_text_content:
  "length (filter is_content_placeholder (set_title_text title shs))
     = length (filter is_content_placeholder shs)"
  by (induction title shs rule: set_title_text.induct) (auto simp: is_content_placeholder_def)

lemma take_picture_placeholder_keeps:
  "take_picture_placeholder shs = Some (shs', g) \<Longrightarrow>
     filter is_textbox shs' = filter is_textbox shs
     \<and> filter is_content_placeholder shs' = filter is_content_placeholder shs"
proof (induction shs arbitrary: shs')
  case Nil
  then show ?case by simp
next
  case (Cons s shs)
  then show ?case
    by (cases s) (auto simp: is_textbox_def is_content_placeholder_def split: if_splits)
qed

lemma add_image_keeps:
  "filter is_textbox (add_image rnd img shs) = filter is_textbox shs
   \<and> filter is_content_placeholder (add_image rnd img shs) = filter is_content_placeholder shs"
proof (cases img)
  case None
  then show ?thesis by (simp add: add_image_def)
next
  case (Some i)
  show ?thesis
  proof (cases "take_picture_placeholder shs")
    case None
    then show ?thesis
      by (simp add: add_image_def Some is_textbox_def is_content_placeholder_def split: prod.splits)
  next
    case (Some a)
    obtain shs' l t w h where a: "a = (shs', l, t, w, h)" by (cases a) auto
    from take_picture_placeholder_keeps[of shs shs' "(l, t, w, h)"] Some a
    show ?thesis
      by (simp add: add_image_def \<open>img = Some i\<close> is_textbox_def is_content_placeholder_def)
  qed
qed

lemma populate_two_content:
  assumes "text \<noteq> []" and "text2 \<noteq> []"
    and "length (filter is_content_placeholder shs) \<le> 1"
    and "filter is_textbox shs = []"
  shows "filter is_textbox (populate rnd ''title_two_content'' title text text2 img shs)
           = [TextBox (Inches 0.5) (Inches 1.8) (Inches 4.2) (Inches 5) text,
              TextBox (Inches 5.2) (Inches 1.8) (Inches 4.2) (Inches 5) text2]"
    and "length (filter is_content_placeholder
            (populate rnd ''title_two_content'' title text text2 img shs))
           = length (filter is_content_placeholder shs)"
proof -
  let ?t = "set_title title shs"
  have tb: "filter is_textbox ?t = []"
    using assms(4) by (simp add: set_title_def set_title_text_textboxes)
  have cn: "length (filter is_content_placeholder ?t) = length (filter is_content_placeholder shs)"
    by (simp add: set_title_def set_title_text_content)
  have few: "\<not> 2 \<le> length (content_placeholders ?t)"
    using assms(3) cn by (simp add: content_placeholders_length)
  have sc: "set_content ''title_two_content'' text text2 ?t
      = ?t @ [TextBox (Inches 0.5) (Inches 1.8) (Inches 4.2) (Inches 5) text,
              TextBox (Inches 5.2) (Inches 1.8) (Inches 4.2) (Inches 5) text2]"
    using assms(1,2) few by (simp add: set_content_def two_content_def Let_def)
  show "filter is_textbox (populate rnd ''title_two_content'' title text text2 img shs)
           = [TextBox (Inches 0.5) (Inches 1.8) (Inches 4.2) (Inches 5) text,
              TextBox (Inches 5.2) (Inches 1.8) (Inches 4.2) (Inches 5) text2]"
    by (simp add: populate_def add_image_keeps sc tb) (simp add: is_textbox_def)
  show "length (filter is_content_placeholder
            (populate rnd ''title_two_content'' title text text2 img shs))
           = length (filter is_content_placeholder shs)"
    by (simp add: populate_def add_image_keeps sc cn) (simp add: is_content_placeholder_def)
qed

text \<open>
  Claim C6. For a \<open>title_two_content\<close> request that \<open>add_slide\<close> accepts (both body texts
  are then present), when the new slide made from the chosen layout has at most one
  BODY/OBJECT placeholder, the finished slide has exactly two text boxes, the first with
  body text 1 and the second with body text 2, at the two fixed places; the two do not
  overlap; and the slide has as many BODY/OBJECT placeholders as it started with.
\<close>

theorem two_content_textboxes:
  assumes "add_slide e req prs = Inr prs'"
    and "req_layout req = ''title_two_content''"
    and "find_layout_by_type (slide_layouts prs) (req_layout req) = Some l"
    and "length (filter is_content_placeholder (map Placeholder (clone_placeholders e l))) \<le> 1"
  shows "\<exists>sl. slide_parts prs' (next_slide_id (sldIdLst prs)) = Some sl
     \<and> filter is_textbox (shapes sl)
         = [TextBox (Inches 0.5) (Inches 1.8) (Inches 4.2) (Inches 5) (req_text req),
            TextBox (Inches 5.2) (Inches 1.8) (Inches 4.2) (Inches 5) (req_text2 req)]
     \<and> \<not> overlapping (TextBox (Inches 0.5) (Inches 1.8) (Inches 4.2) (Inches 5) (req_text req))
                      (TextBox (Inches 5.2) (Inches 1.8) (Inches 4.2) (Inches 5) (req_text2 req))
     \<and> req_text req \<noteq> [] \<and> req_text2 req \<noteq> []
     \<and> length (filter is_content_placeholder (shapes sl))
         = length (filter is_content_placeholder (map Placeholder (clone_placeholders e l)))"
proof -
  from assms(1) obtain cfg pos l' where
    h: "PREDEFINED_LAYOUTS (req_layout req) = Some cfg"
       "\<not> (content_boxes cfg > 0 \<and> req_text req = [])"
       "\<not> (content_boxes cfg = 2 \<and> req_text2 req = [])"
       "find_layout_by_type (slide_layouts prs) (req_layout req) = Some l'"
    and prs': "prs' = prs\<lparr>sldIdLst := reposition (sldIdLst_available e)
                   (nat (if pos > int (length (sldIdLst prs)) then int (length (sldIdLst prs)) else pos))
                   (length (sldIdLst prs)) (sldIdLst prs @ [next_slide_id (sldIdLst prs)]),
       slide_parts := (slide_parts prs)(next_slide_id (sldIdLst prs) \<mapsto>
          \<lparr>shapes = populate (fl e) (req_layout req) (req_title req) (req_text req) (req_text2 req)
              (req_image req) (map Placeholder (clone_placeholders e l')),
           background = Some (255, 255, 255)\<rparr>)\<rparr>"
    by (rule add_slide_Inr)
  have l: "l' = l" using h(4) assms(3) by simp
  have "content_boxes cfg = 2"
    using h(1) by (auto simp: assms(2) PREDEFINED_LAYOUTS_def)
  then have t: "req_text req \<noteq> []" "req_text2 req \<noteq> []"
    using h(2,3) by auto
  let ?shs = "map Placeholder (clone_placeholders e l)"
  have nb: "filter is_textbox ?shs = []"
    by (simp add: filter_empty_conv is_textbox_def)
  let ?sl = "\<lparr>shapes = populate (fl e) ''title_two_content'' (req_title req) (req_text req)
                (req_text2 req) (req_image req) ?shs,
              background = Some (255, 255, 255)\<rparr>"
  have sp: "slide_parts prs' (next_slide_id (sldIdLst prs)) = Some ?sl"
    by (simp add: prs' l assms(2))
  have no: "\<not> overlapping (TextBox (Inches 0.5) (Inches 1.8) (Inches 4.2) (Inches 5) (req_text req))
                      (TextBox (Inches 5.2) (Inches 1.8) (Inches 4.2) (Inches 5) (req_text2 req))"
    by (simp add: overlapping_def rect_of_def Inches_def)
  show ?thesis
    using sp no t populate_two_content[OF t assms(4) nb, of "fl e" "req_title req" "req_image req"]
    by simp
qed

theorem two_content_textboxes_witness:
  "\<exists>sl. slide_parts
          (projr (add_slide (example_env True) (example_request ''title_two_content'' 0) example_prs))
          258 = Some sl
     \<and> filter is_textbox (shapes sl)
         = [TextBox (Inches 0.5) (Inches 1.8) (Inches 4.2) (Inches 5) ''Left'',
            TextBox (Inches 5.2) (Inches 1.8) (Inches 4.2) (Inches 5) ''Right'']
     \<and> length (filter is_content_placeholder (shapes sl)) = 1"
proof -
  let ?l = "layout_of ''Title and Two Content'' [TITLE, BODY]"
  have l: "find_layout_by_type (slide_layouts example_prs) ''title_two_content'' = Some ?l"
    by (simp add: find_layout_by_type_def PREDEFINED_LAYOUTS_def example_prs_def layout_of_def
        excluded_def exclude_patterns_def lower_def lower_char_def)
  have "\<exists>prs'. add_slide (example_env True) (example_request ''title_two_content'' 0) example_prs
      = Inr prs'"
    by (rule add_slide_succeeds [where pos = 0 and l = ?l
          and cfg = "the (PREDEFINED_LAYOUTS ''title_two_content'')"])
       (simp_all add: example_request_def l PREDEFINED_LAYOUTS_def, simp add: example_prs_def)
  then obtain prs' where r:
    "add_slide (example_env True) (example_request ''title_two_content'' 0) example_prs = Inr prs'"
    by blast
  have n: "next_slide_id (sldIdLst example_prs) = 258"
    by (simp add: next_slide_id_def example_prs_def)
  have c: "length (filter is_content_placeholder
             (map Placeholder (clone_placeholders (example_env True) ?l))) = 1"
    by (simp add: example_env_def layout_of_def example_ph_def is_content_placeholder_def)
  have rl: "req_layout (example_request ''title_two_content'' 0) = ''title_two_content''"
    by (simp add: example_request_def)
  have "\<exists>sl. slide_parts prs' 258 = Some sl
     \<and> filter is_textbox (shapes sl)
         = [TextBox (Inches 0.5) (Inches 1.8) (Inches 4.2) (Inches 5) ''Left'',
            TextBox (Inches 5.2) (Inches 1.8) (Inches 4.2) (Inches 5) ''Right'']
     \<and> length (filter is_content_placeholder (shapes sl)) = 1"
    using two_content_textboxes [OF r rl, of ?l] l c n
    by (simp add: rl) (auto simp: example_request_def)
  then show ?thesis by (simp add: r)
qed

subsection \<open>The size of a picture without a placeholder\<close>

lemma take_picture_placeholder_None:
  "take_picture_placeholder shs = None \<longleftrightarrow> \<not> list_ex is_picture_placeholder shs"
proof (induction shs)
  case Nil
  then show ?case by simp
next
  case (Cons s shs)
  then show ?case
    by (cases s) (auto simp: is_picture_placeholder_def)
qed

lemma rounding_bounds:
  assumes "\<And>x. \<bar>rnd x - x\<bar> \<le> \<bar>x\<bar> / 2 ^ 53" and "0 \<le> (x :: real)"
  shows "x - x / 9007199254740992 \<le> rnd x" and "rnd x \<le> x + x / 9007199254740992"
proof -
  have "\<bar>rnd x - x\<bar> \<le> x / 9007199254740992"
    using assms(1)[of x] assms(2) by simp
  then show "x - x / 9007199254740992 \<le> rnd x" and "rnd x \<le> x + x / 9007199254740992"
    by linarith+
qed

lemma scaled_height_bounds:
  assumes rnd: "\<And>x. \<bar>rnd x - x\<bar> \<le> \<bar>x\<bar> / 2 ^ 53"
    and w: "2743200 < (w :: int)"
  defines "E \<equiv> 2743200 * (4572000 / real_of_int w)"
    and "V \<equiv> rnd (2743200 * rnd (4572000 / real_of_int w))"
  shows "0 \<le> V" and "E - 1 / 536870912 < V" and "V < E + 1 / 536870912" and "E < 4571999"
proof -
  define x where "x = 4572000 / real_of_int w"
  define r where "r = rnd x"
  define y where "y = 2743200 * r"
  from w have wr: "2743201 \<le> real_of_int w" by linarith
  then have x0: "0 < x" by (simp add: x_def)
  have xu: "x \<le> 4572000 / 2743201"
    unfolding x_def using wr by (intro divide_left_mono) auto
  have r1: "x - x / 9007199254740992 \<le> r" and r2: "r \<le> x + x / 9007199254740992"
    unfolding r_def using rounding_bounds[OF rnd, of x] x0 by auto
  have y0: "0 \<le> y" unfolding y_def using r1 x0 by linarith
  have V: "V = rnd y" by (simp add: V_def y_def r_def x_def)
  have E: "E = 2743200 * x" by (simp add: E_def x_def)
  have v1: "y - y / 9007199254740992 \<le> V" and v2: "V \<le> y + y / 9007199254740992"
    unfolding V using rounding_bounds[OF rnd y0] by auto
  show "0 \<le> V" using v1 y0 by linarith
  show "E - 1 / 536870912 < V" unfolding E using v1 r1 r2 x0 xu unfolding y_def by linarith
  show "V < E + 1 / 536870912" unfolding E using v2 r1 r2 x0 xu unfolding y_def by linarith
  show "E < 4571999" unfolding E using xu by linarith
qed

text \<open>
  Claim C7, as stated, fails in its last part: the new height is a whole number of length
  units, so the ratio is kept only as far as truncation allows. An image seven wide and
  three high comes in at height 4572000 and width 10668000; it is scaled to width 2743200
  and height 1175657, and 1175657 / 2743200 is not 3 / 7.
\<close>

theorem scaled_ratio_not_exact:
  "add_image exact (Some \<lparr>scaled_width = 10668000\<rparr>) []
     = [Picture (Inches 6.5) (Inches 1.5) 2743200 1175657]
   \<and> Inches 3 < 10668000
   \<and> real_of_int 1175657 / real_of_int 2743200
       \<noteq> real_of_int (Inches 5) / real_of_int 10668000"
  by (simp add: add_image_def fit_picture_def Inches_def exact_def py_int_def Let_def)

lemma any_rounding_same_size:
  assumes "\<And>x. \<bar>rnd x - x\<bar> \<le> \<bar>x\<bar> / 2 ^ 53"
  shows "fit_picture rnd 10668000 = (2743200, 1175657)"
proof -
  let ?V = "rnd (2743200 * rnd (4572000 / real_of_int 10668000))"
  have b: "0 \<le> ?V" "2743200 * (4572000 / real_of_int 10668000) - 1 / 536870912 < ?V"
    "?V < 2743200 * (4572000 / real_of_int 10668000) + 1 / 536870912"
    using scaled_height_bounds[OF assms, of 10668000] by simp_all
  have "\<lfloor>?V\<rfloor> = 1175657"
    using b(2,3) by (intro floor_unique) simp_all
  then show ?thesis
    using b(1) by (simp add: fit_picture_def Inches_def py_int_def Let_def)
qed

text \<open>
  Claim C7, amended. When an image is supplied and the new slide has no picture
  placeholder, the picture is added at the fixed position with height at most the maximum
  height and width at most the maximum width; whenever it is scaled down for exceeding
  the maximum width, its width is the maximum width and its height is the proportional
  height (maximum width times original height over original width) computed in floating
  point and truncated to a whole length unit, which differs from the
  proportional height by less than \<open>1 + 1 / 2 ^ 28\<close> length units. The floating-point
  operations are any rounding of relative error at most \<open>1 / 2 ^ 53\<close>.
\<close>

theorem picture_fits:
  assumes rnd: "\<And>x. \<bar>rnd x - x\<bar> \<le> \<bar>x\<bar> / 2 ^ 53"
    and no_ph: "\<not> list_ex is_picture_placeholder shs"
  shows "\<exists>w h. add_image rnd (Some img) shs = shs @ [Picture (Inches 6.5) (Inches 1.5) w h]
           \<and> h \<le> Inches 5 \<and> w \<le> Inches 3
           \<and> (scaled_width img > Inches 3 \<longrightarrow>
                w = Inches 3
                \<and> \<bar>real_of_int h
                     - real_of_int (Inches 3) * (real_of_int (Inches 5) / real_of_int (scaled_width img))\<bar>
                   < 1 + 1 / 2 ^ 28)
           \<and> (scaled_width img \<le> Inches 3 \<longrightarrow> w = scaled_width img \<and> h = Inches 5)"
proof -
  have i5: "Inches 5 = 4572000" and i3: "Inches 3 = 2743200"
    by (simp_all add: Inches_def)
  have tp: "take_picture_placeholder shs = None"
    using no_ph by (simp add: take_picture_placeholder_None)
  obtain w h where wh: "fit_picture rnd (scaled_width img) = (w, h)"
    by (cases "fit_picture rnd (scaled_width img)") auto
  have a: "add_image rnd (Some img) shs = shs @ [Picture (Inches 6.5) (Inches 1.5) w h]"
    by (simp add: add_image_def tp wh)
  show ?thesis
  proof (cases "scaled_width img > 2743200")
    case False
    then have "w = scaled_width img" "h = 4572000"
      using wh by (simp_all add: fit_picture_def i5 i3 Let_def)
    then show ?thesis using a False by (auto simp: i5 i3)
  next
    case True
    let ?E = "2743200 * (4572000 / real_of_int (scaled_width img))"
    let ?V = "rnd (2743200 * rnd (4572000 / real_of_int (scaled_width img)))"
    have b: "0 \<le> ?V" "?E - 1 / 536870912 < ?V" "?V < ?E + 1 / 536870912" "?E < 4571999"
      using scaled_height_bounds[OF rnd True] by simp_all
    have w: "w = 2743200" and h: "h = \<lfloor>?V\<rfloor>"
      using wh True b(1) by (simp_all add: fit_picture_def i5 i3 Let_def py_int_def)
    have f1: "real_of_int h \<le> ?V" and f2: "?V < real_of_int h + 1"
      unfolding h by linarith+
    have "\<bar>real_of_int h - ?E\<bar> < 1 + 1 / 268435456"
      using f1 f2 b(2,3) by linarith
    then have hE: "\<bar>real_of_int h - ?E\<bar> < 1 + 1 / 2 ^ 28"
      by simp
    have "real_of_int h < 4572000" using f1 b(3,4) by linarith
    then have hm: "h \<le> 4572000" by linarith
    show ?thesis using a True w hm hE by (auto simp: i5 i3)
  qed
qed

theorem picture_fits_witness:
  "\<exists>w h. add_image exact (Some \<lparr>scaled_width = 10668000\<rparr>) [Placeholder (example_ph TITLE)]
            = [Placeholder (example_ph TITLE)] @ [Picture (Inches 6.5) (Inches 1.5) w h]
         \<and> h \<le> Inches 5 \<and> w \<le> Inches 3 \<and> w = Inches 3
         \<and> \<bar>real_of_int h - real_of_int (Inches 3) * (real_of_int (Inches 5) / real_of_int 10668000)\<bar>
             < 1 + 1 / 2 ^ 28"
  using picture_fits [of exact "[Placeholder (example_ph TITLE)]" "\<lparr>scaled_width = 10668000\<rparr>"]
  by (simp add: exact_def is_picture_placeholder_def example_ph_def Inches_def)

end
